theory Spec2Isabelle
  imports Complex_Main "HOL-Library.List_Lexorder" "HOL-Library.Char_ord"
begin

section \<open>Strings as the program handles them\<close>

text \<open>
  A JavaScript string is modelled as a \<^typ>\<open>string\<close>, a list of code units. The
  helpers below are the string methods the sources call: \<^verbatim>\<open>startsWith\<close>,
  \<^verbatim>\<open>split\<close> on a one-character separator, \<^verbatim>\<open>join\<close>, and
  \<^verbatim>\<open>replace(/\\/g, '/')\<close>.
\<close>

definition startsWith :: "string \<Rightarrow> string \<Rightarrow> bool" where
  "startsWith s p = (take (length p) s = p)"

fun splitOn :: "char \<Rightarrow> string \<Rightarrow> string list" where
  "splitOn c [] = [[]]"
| "splitOn c (x # xs) =
     (if x = c then [] # splitOn c xs
      else (x # hd (splitOn c xs)) # tl (splitOn c xs))"

fun joinWith :: "string \<Rightarrow> string list \<Rightarrow> string" where
  "joinWith sep [] = []"
| "joinWith sep [w] = w"
| "joinWith sep (w # v # ws) = w @ sep @ joinWith sep (v # ws)"

definition replaceBackslashes :: "string \<Rightarrow> string" where
  "replaceBackslashes s = map (\<lambda>c. if c = CHR 0x5C then CHR ''/'' else c) s"

section \<open>The path validator (src/src/validation.ts)\<close>

subsection \<open>The platform's path.resolve\<close>

text \<open>
  \<^verbatim>\<open>validatePathWithinWorkspace\<close> calls \<^verbatim>\<open>resolve\<close> of the Node.js module
  \<^verbatim>\<open>node:path\<close>, which is platform code and not part of the repository. It is
  modelled here in its POSIX flavour, following the algorithm the platform documents: the
  arguments are taken from right to left until an absolute one is met, the current working
  directory being used last; the concatenation is then normalised segment by segment (empty
  segments and \<^verbatim>\<open>.\<close> are dropped, \<^verbatim>\<open>..\<close> removes the segment before it and is
  dropped at the root). The current working directory is a parameter \<open>cwd\<close> of the
  model.
\<close>

fun resolveLoop :: "string list \<Rightarrow> string \<Rightarrow> string \<times> bool" where
  "resolveLoop [] acc = (acc, False)"
| "resolveLoop (p # ps) acc =
     (if p = [] then resolveLoop ps acc
      else if hd p = CHR ''/'' then (p @ ''/'' @ acc, True)
      else resolveLoop ps (p @ ''/'' @ acc))"

fun normalizeSegments :: "bool \<Rightarrow> string list \<Rightarrow> string list \<Rightarrow> string list" where
  "normalizeSegments allowAboveRoot res [] = res"
| "normalizeSegments allowAboveRoot res (s # ss) =
     (if s = [] \<or> s = ''.'' then normalizeSegments allowAboveRoot res ss
      else if s = ''..'' then
        (if res \<noteq> [] \<and> last res \<noteq> ''..''
           then normalizeSegments allowAboveRoot (butlast res) ss
         else if allowAboveRoot
           then normalizeSegments allowAboveRoot (res @ [''..'']) ss
         else normalizeSegments allowAboveRoot res ss)
      else normalizeSegments allowAboveRoot (res @ [s]) ss)"

definition normalizeString :: "string \<Rightarrow> bool \<Rightarrow> string" where
  "normalizeString path allowAboveRoot =
     joinWith ''/'' (normalizeSegments allowAboveRoot [] (splitOn CHR ''/'' path))"

definition resolve :: "string \<Rightarrow> string list \<Rightarrow> string" where
  "resolve cwd args =
     (case resolveLoop (rev args @ [cwd]) [] of
        (resolvedPath, resolvedAbsolute) \<Rightarrow>
          (let normalized = normalizeString resolvedPath (\<not> resolvedAbsolute)
           in if resolvedAbsolute then CHR ''/'' # normalized
              else if normalized \<noteq> [] then normalized else ''.''))"

subsection \<open>validatePathWithinWorkspace\<close>

record validation_result =
  valid :: bool
  error :: "string option"

text \<open>
  The source wraps its body in \<^verbatim>\<open>try\<close>/\<^verbatim>\<open>catch\<close>; \<^verbatim>\<open>resolve\<close> throws
  only for an argument that is not a string, which the parameter types exclude, so the
  \<^verbatim>\<open>catch\<close> branch has no counterpart in the model.
\<close>

definition validatePathWithinWorkspace :: "string \<Rightarrow> string \<Rightarrow> string \<Rightarrow> validation_result" where
  "validatePathWithinWorkspace cwd filePath workspaceDir =
     (let absoluteFilePath = resolve cwd [filePath];
          absoluteWorkspace = resolve cwd [workspaceDir];
          normalizedFilePath = replaceBackslashes absoluteFilePath;
          normalizedWorkspace = replaceBackslashes absoluteWorkspace
      in if \<not> startsWith normalizedFilePath (normalizedWorkspace @ ''/'') \<and>
            normalizedFilePath \<noteq> normalizedWorkspace
         then \<lparr>valid = False,
               error = Some (''File path must be within workspace directory. Path: '' @ filePath @
                             '', Workspace: '' @ workspaceDir)\<rparr>
         else \<lparr>valid = True, error = None\<rparr>)"

section \<open>The turn engine (src/src/core/liteTurn.ts)\<close>

subsection \<open>Provider data\<close>

text \<open>
  The provider's types are declared by the SDK, not by the repository; the records below
  carry the fields the engine reads. An optional field is an \<open>option\<close>. A JavaScript
  number is a \<^typ>\<open>rat\<close> (the non-finite values are not represented). For a part,
  \<open>thought p \<noteq> None\<close> stands for \<^verbatim>\<open>'thought' in part\<close>; for a citation source,
  \<open>title c \<noteq> None\<close> stands for \<^verbatim>\<open>'title' in citation\<close>, and \<open>Some None\<close> is a
  key that is present with the value \<^verbatim>\<open>undefined\<close>. \<open>contentParts\<close> is
  \<^verbatim>\<open>candidate.content?.parts\<close> and \<open>citationSources\<close> is
  \<^verbatim>\<open>candidate.citationMetadata?.citationSources\<close>.
\<close>

datatype json_value =
    JNull
  | JBool bool
  | JNum rat
  | JStr string
  | JArr "json_value list"
  | JObj "(string \<times> json_value) list"

type_synonym json_object = "(string \<times> json_value) list"

text \<open>
  Values that the modelled code throws or catches. \<open>PlainError\<close> is an \<^verbatim>\<open>Error\<close>
  with its message and, when it has a numeric \<^verbatim>\<open>status\<close> property, that status;
  \<open>NonErrorValue\<close> is a thrown value that is not an \<^verbatim>\<open>Error\<close>, with its string
  conversion. \<open>InvalidArgumentError\<close> carries the argument name and the reason,
  \<open>ToolExecutionError\<close> the tool name and the reason, \<open>DirectoryListError\<close> the
  directory path.
\<close>

datatype thrown =
    InvalidStreamError string
  | PlainError string "rat option"
  | TypeError string
  | InvalidArgumentError string string
  | ToolExecutionError string string
  | FileOutsideWorkspaceError
  | DirectoryListError string
  | NonErrorValue string "rat option"

fun messageOf :: "thrown \<Rightarrow> string" where
  "messageOf (InvalidStreamError m) = m"
| "messageOf (PlainError m s) = m"
| "messageOf (TypeError m) = m"
| "messageOf (InvalidArgumentError a r) = ''Invalid argument: '' @ a @ '' - '' @ r"
| "messageOf (ToolExecutionError t r) = ''Tool execution failed: '' @ t @ '' - '' @ r"
| "messageOf FileOutsideWorkspaceError =
     ''File path must be within workspace directory. Access denied for security reasons.''"
| "messageOf (DirectoryListError d) = ''Failed to list directory: '' @ d"
| "messageOf (NonErrorValue m s) = m"

fun statusOf :: "thrown \<Rightarrow> rat option" where
  "statusOf (PlainError m s) = s"
| "statusOf (NonErrorValue m s) = s"
| "statusOf e = None"

fun isInvalidStreamError :: "thrown \<Rightarrow> bool" where
  "isInvalidStreamError (InvalidStreamError m) = True"
| "isInvalidStreamError e = False"

record part =
  partText :: "string option"
  thought :: "bool option"

record citation_source =
  uri :: "string option"
  title :: "string option option"

record candidate =
  contentParts :: "part list option"
  candidateFinishReason :: "string option"
  citationSources :: "citation_source list option"

record usage_metadata =
  promptTokenCount :: nat
  candidatesTokenCount :: nat
  totalTokenCount :: nat

record function_call =
  fcName :: "string option"
  fcArgs :: "json_object option"

text \<open>
  \<open>functionCalls\<close> is the outcome of \<^verbatim>\<open>resp.functionCalls?.()\<close>: \<open>None\<close> when the
  response has no such method, \<open>Some (Inl e)\<close> when the call throws \<open>e\<close>,
  \<open>Some (Inr None)\<close> when it returns \<^verbatim>\<open>undefined\<close>.
\<close>

record response =
  candidates :: "candidate list option"
  usageMetadata :: "usage_metadata option"
  functionCalls :: "(thrown + function_call list option) option"

datatype stream_event = RetryEvent | ChunkEvent "response option"

subsection \<open>Events\<close>

record tool_call_request_info =
  callId :: string
  name :: string
  args :: json_object
  isClientInitiated :: bool
  prompt_id :: string

record structured_error =
  message :: string
  status :: "rat option"

record thought_summary =
  thoughtText :: string
  summary :: string

text \<open>
  The events \<^verbatim>\<open>run\<close> yields. The union of the source has one more variant,
  the tool-call response, which \<^verbatim>\<open>run\<close> never constructs.
\<close>

datatype event =
    Content string
  | ToolCallRequest tool_call_request_info
  | UserCancelled
  | Error structured_error
  | Thought thought_summary
  | Finished "string option" "usage_metadata option"
  | Citation string
  | Retry
  | InvalidStream

fun isTerminal :: "event \<Rightarrow> bool" where
  "isTerminal (Finished r u) = True"
| "isTerminal (Error e) = True"
| "isTerminal UserCancelled = True"
| "isTerminal InvalidStream = True"
| "isTerminal ev = False"

fun isFinished :: "event \<Rightarrow> bool" where
  "isFinished (Finished r u) = True"
| "isFinished ev = False"

fun isCitation :: "event \<Rightarrow> bool" where
  "isCitation (Citation s) = True"
| "isCitation ev = False"

subsection \<open>The state of a turn and the helpers of the class\<close>

text \<open>
  \<open>pendingCitations\<close> is a \<^verbatim>\<open>Set<string>\<close>: a list in insertion order to which
  \<open>setAdd\<close> adds only what it does not hold yet.
\<close>

record turn_state =
  pendingToolCalls :: "tool_call_request_info list"
  debugResponses :: "response list"
  pendingCitations :: "string list"
  finishReason :: "string option"

definition initialTurn :: turn_state where
  "initialTurn = \<lparr>pendingToolCalls = [], debugResponses = [], pendingCitations = [], finishReason = None\<rparr>"

definition setAdd :: "string list \<Rightarrow> string \<Rightarrow> string list" where
  "setAdd xs x = (if x \<in> set xs then xs else xs @ [x])"

definition firstCandidate :: "response \<Rightarrow> candidate option" where
  "firstCandidate resp =
     (case candidates resp of None \<Rightarrow> None | Some [] \<Rightarrow> None | Some (c # cs) \<Rightarrow> Some c)"

definition responseParts :: "response \<Rightarrow> part list option" where
  "responseParts resp =
     (case firstCandidate resp of None \<Rightarrow> None | Some c \<Rightarrow> contentParts c)"

text \<open>Truthiness of an optional string: defined and not empty.\<close>

fun truthy :: "string option \<Rightarrow> bool" where
  "truthy None = False"
| "truthy (Some s) = (s \<noteq> [])"

definition isWhiteSpace :: "char \<Rightarrow> bool" where
  "isWhiteSpace c = (c \<in> set [CHR 0x09, CHR 0x0A, CHR 0x0B, CHR 0x0C, CHR 0x0D, CHR 0x20, CHR 0xA0])"

definition trim :: "string \<Rightarrow> string" where
  "trim s = rev (dropWhile isWhiteSpace (rev (dropWhile isWhiteSpace s)))"

definition parseThought :: "string \<Rightarrow> thought_summary" where
  "parseThought txt =
     (let lines = filter (\<lambda>line. trim line \<noteq> []) (splitOn (CHR 0x0A) txt)
      in \<lparr>thoughtText = txt,
          summary = (case lines of
                       [] \<Rightarrow> take 100 txt
                     | l # ls \<Rightarrow> if l \<noteq> [] then l else take 100 txt)\<rparr>)"

definition getResponseText :: "response \<Rightarrow> string option" where
  "getResponseText resp =
     (case responseParts resp of
        None \<Rightarrow> None
      | Some ps \<Rightarrow>
          (let txt = concat (map (\<lambda>p. if truthy (partText p) then the (partText p) else []) ps)
           in if txt \<noteq> [] then Some txt else None))"

definition citationText :: "citation_source \<Rightarrow> string" where
  "citationText c =
     (if title c \<noteq> None \<and> truthy (uri c)
      then ''('' @ (case the (title c) of None \<Rightarrow> ''undefined'' | Some t \<Rightarrow> t) @ '') '' @ the (uri c)
      else the (uri c))"

definition getCitations :: "response \<Rightarrow> string list" where
  "getCitations resp =
     (let citations =
            (case firstCandidate resp of
               None \<Rightarrow> []
             | Some c \<Rightarrow> (case citationSources c of None \<Rightarrow> [] | Some cs \<Rightarrow> cs))
      in map citationText (filter (\<lambda>c. uri c \<noteq> None) citations))"

text \<open>
  \<^verbatim>\<open>handlePendingFunctionCall\<close> builds the call identifier from the clock and
  a random number. Both are inputs of the model: \<open>stamp k\<close> is the text
  \<^verbatim>\<open>${Date.now()}-${Math.random().toString(16).slice(2)}\<close> computed for the call
  made when \<open>k\<close> calls are already pending.
\<close>

definition handlePendingFunctionCall ::
  "(nat \<Rightarrow> string) \<Rightarrow> string \<Rightarrow> turn_state \<Rightarrow> function_call \<Rightarrow> event \<times> turn_state" where
  "handlePendingFunctionCall stamp pid st fnCall =
     (let cid = (case fcName fnCall of None \<Rightarrow> ''undefined'' | Some n \<Rightarrow> n) @ ''-'' @
                  stamp (length (pendingToolCalls st));
          nm = (if truthy (fcName fnCall) then the (fcName fnCall) else ''undefined_tool_name'');
          ar = (case fcArgs fnCall of None \<Rightarrow> [] | Some a \<Rightarrow> a);
          toolCallRequest = \<lparr>callId = cid, name = nm, args = ar, isClientInitiated = False,
                               prompt_id = pid\<rparr>
      in (ToolCallRequest toolCallRequest,
          st\<lparr>pendingToolCalls := pendingToolCalls st @ [toolCallRequest]\<rparr>))"

fun handleFunctionCalls ::
  "(nat \<Rightarrow> string) \<Rightarrow> string \<Rightarrow> turn_state \<Rightarrow> function_call list \<Rightarrow> event list \<times> turn_state" where
  "handleFunctionCalls stamp pid st [] = ([], st)"
| "handleFunctionCalls stamp pid st (fnCall # rest) =
     (case handlePendingFunctionCall stamp pid st fnCall of
        (ev, st1) \<Rightarrow>
          (case handleFunctionCalls stamp pid st1 rest of
             (evs, st2) \<Rightarrow> (ev # evs, st2)))"

subsection \<open>One chunk\<close>

definition isThoughtChunk :: "response \<Rightarrow> bool" where
  "isThoughtChunk resp =
     (case responseParts resp of
        None \<Rightarrow> False
      | Some [] \<Rightarrow> False
      | Some (p # ps) \<Rightarrow> thought p \<noteq> None)"

definition thoughtPartText :: "response \<Rightarrow> string" where
  "thoughtPartText resp =
     (case responseParts resp of
        Some (p # ps) \<Rightarrow> (case partText p of None \<Rightarrow> [] | Some t \<Rightarrow> t)
      | _ \<Rightarrow> [])"

definition chunkFinishReason :: "response \<Rightarrow> string option" where
  "chunkFinishReason resp =
     (case firstCandidate resp of None \<Rightarrow> None | Some c \<Rightarrow> candidateFinishReason c)"

text \<open>
  The citation and finish-reason steps of the loop body (lines 175 to 200 of the
  source): collect the chunk's citations, then, on a finish reason, flush the pending
  citations and yield \<open>Finished\<close>.
\<close>

definition finishStep :: "turn_state \<Rightarrow> response \<Rightarrow> event list \<times> turn_state" where
  "finishStep st resp =
     (let st1 = st\<lparr>pendingCitations := foldl setAdd (pendingCitations st) (getCitations resp)\<rparr>
      in if truthy (chunkFinishReason resp)
         then (let citationEvents =
                     (if pendingCitations st1 \<noteq> []
                      then [Citation (''Citations:'' @ [CHR 0x0A] @
                                      joinWith [CHR 0x0A] (sort (pendingCitations st1)))]
                      else []);
                   st2 = (if pendingCitations st1 \<noteq> [] then st1\<lparr>pendingCitations := []\<rparr> else st1)
               in (citationEvents @ [Finished (chunkFinishReason resp) (usageMetadata resp)],
                   st2\<lparr>finishReason := chunkFinishReason resp\<rparr>))
         else ([], st1))"

text \<open>
  The loop body for a defined chunk: the events it yields, the state afterwards, and
  the value thrown inside it, if any (only the call of \<^verbatim>\<open>functionCalls\<close> can throw).
\<close>

definition processChunk ::
  "(nat \<Rightarrow> string) \<Rightarrow> string \<Rightarrow> turn_state \<Rightarrow> response \<Rightarrow> event list \<times> turn_state \<times> thrown option" where
  "processChunk stamp pid st0 resp =
     (let st = st0\<lparr>debugResponses := debugResponses st0 @ [resp]\<rparr>
      in if isThoughtChunk resp
         then ([Thought (parseThought (thoughtPartText resp))], st, None)
         else
           (let contentEvents = (case getResponseText resp of None \<Rightarrow> [] | Some t \<Rightarrow> [Content t])
            in case functionCalls resp of
                 Some (Inl e) \<Rightarrow> (contentEvents, st, Some e)
               | fc \<Rightarrow>
                  (let calls = (case fc of Some (Inr (Some cs)) \<Rightarrow> cs | _ \<Rightarrow> [])
                   in case handleFunctionCalls stamp pid st calls of
                        (callEvents, st1) \<Rightarrow>
                          (case finishStep st1 resp of
                             (finishEvents, st2) \<Rightarrow>
                               (contentEvents @ callEvents @ finishEvents, st2, None)))))"

subsection \<open>The run\<close>

text \<open>
  The transport is the \<^verbatim>\<open>ILiteChat\<close> passed to the constructor. Calling
  \<^verbatim>\<open>sendMessageStream\<close> either throws or returns a stream: the items it delivers and
  how it ends. The cancellation signal is read several times during a run and can change
  between reads: \<open>sig k\<close> is what the read number \<open>k\<close> of \<^verbatim>\<open>signal.aborted\<close>
  returns (the loop reads it once per item, the \<^verbatim>\<open>catch\<close> block once).
\<close>

datatype stream_end = EndOfStream | StreamThrows thrown

datatype transport_outcome = SendThrows thrown | Stream "stream_event list" stream_end

datatype message_item = ItemString string | ItemPart part

datatype message = MessageString string | MessageItems "message_item list"

record transport_call =
  callModel :: string
  callMessage :: message
  callPromptId :: string

type_synonym lite_chat = "transport_call \<Rightarrow> transport_outcome"

definition catchEvent :: "bool \<Rightarrow> thrown \<Rightarrow> event" where
  "catchEvent aborted e =
     (if aborted then UserCancelled
      else if isInvalidStreamError e then InvalidStream
      else Error \<lparr>message = messageOf e, status = statusOf e\<rparr>)"

fun runLoop ::
  "(nat \<Rightarrow> bool) \<Rightarrow> (nat \<Rightarrow> string) \<Rightarrow> string \<Rightarrow> nat \<Rightarrow> turn_state \<Rightarrow>
   stream_event list \<Rightarrow> stream_end \<Rightarrow> event list \<times> turn_state" where
  "runLoop sig stamp pid k st [] EndOfStream = ([], st)"
| "runLoop sig stamp pid k st [] (StreamThrows e) = ([catchEvent (sig k) e], st)"
| "runLoop sig stamp pid k st (RetryEvent # evs) fin =
     (if sig k then ([UserCancelled], st)
      else (case runLoop sig stamp pid (Suc k) st evs fin of
              (es, st') \<Rightarrow> (Retry # es, st')))"
| "runLoop sig stamp pid k st (ChunkEvent None # evs) fin =
     (if sig k then ([UserCancelled], st)
      else runLoop sig stamp pid (Suc k) st evs fin)"
| "runLoop sig stamp pid k st (ChunkEvent (Some resp) # evs) fin =
     (if sig k then ([UserCancelled], st)
      else (case processChunk stamp pid st resp of
              (es, st1, Some e) \<Rightarrow> (es @ [catchEvent (sig (Suc k)) e], st1)
            | (es, st1, None) \<Rightarrow>
                (case runLoop sig stamp pid (Suc k) st1 evs fin of
                   (es', st') \<Rightarrow> (es @ es', st'))))"

record run_result =
  transportCalls :: "transport_call list"
  events :: "event list"
  finalState :: turn_state

definition run ::
  "lite_chat \<Rightarrow> string \<Rightarrow> (nat \<Rightarrow> bool) \<Rightarrow> (nat \<Rightarrow> string) \<Rightarrow> turn_state \<Rightarrow>
   string \<Rightarrow> message \<Rightarrow> run_result" where
  "run chat pid sig stamp st model req =
     (let call = \<lparr>callModel = model, callMessage = req, callPromptId = pid\<rparr>
      in case chat call of
           SendThrows e \<Rightarrow>
             \<lparr>transportCalls = [call], events = [catchEvent (sig 0) e], finalState = st\<rparr>
         | Stream evs fin \<Rightarrow>
             (case runLoop sig stamp pid 0 st evs fin of
                (es, st') \<Rightarrow> \<lparr>transportCalls = [call], events = es, finalState = st'\<rparr>))"

section \<open>Predicates used to state the properties\<close>

text \<open>A path is absolute when it starts with the separator.\<close>

definition isAbsolute :: "string \<Rightarrow> bool" where
  "isAbsolute p = (case p of [] \<Rightarrow> False | c # cs \<Rightarrow> c = CHR ''/'')"

text \<open>
  A segment of a normalised path: not empty, neither \<^verbatim>\<open>.\<close> nor \<^verbatim>\<open>..\<close>, and
  without a separator.
\<close>

definition normalSegment :: "string \<Rightarrow> bool" where
  "normalSegment s = (s \<noteq> [] \<and> s \<noteq> ''.'' \<and> s \<noteq> ''..'' \<and> CHR ''/'' \<notin> set s)"

text \<open>
  The segments of the absolute path that \<^verbatim>\<open>resolve\<close> computes for one argument.
\<close>

definition pathSegments :: "string \<Rightarrow> string \<Rightarrow> string list" where
  "pathSegments cwd p = normalizeSegments False [] (splitOn CHR ''/'' (fst (resolveLoop [p, cwd] [])))"

text \<open>
  The path check as the specification words it, to be compared with
  \<^verbatim>\<open>validatePathWithinWorkspace\<close>. The specification brings a path to its canonical
  form by normalising the separators and resolving \<^verbatim>\<open>.\<close> and \<^verbatim>\<open>..\<close>, so
  that a traversal is resolved whichever separator it is written with: the backslashes become
  separators first, then the path is resolved to its absolute form. A candidate is within the
  root when its canonical form is that of the root, or begins with it followed by the
  separator.
\<close>

definition specCanonical :: "string \<Rightarrow> string \<Rightarrow> string" where
  "specCanonical cwd p = resolve cwd [replaceBackslashes p]"

definition specWithinWorkspace :: "string \<Rightarrow> string \<Rightarrow> string \<Rightarrow> bool" where
  "specWithinWorkspace cwd candidate workspaceRoot =
     (specCanonical cwd candidate = specCanonical cwd workspaceRoot \<or>
      startsWith (specCanonical cwd candidate) (specCanonical cwd workspaceRoot @ ''/''))"

text \<open>
  The events that the \<^verbatim>\<open>catch\<close> block and the cancellation check yield; each is
  followed by \<^verbatim>\<open>return\<close> in the source.
\<close>

fun isAbortive :: "event \<Rightarrow> bool" where
  "isAbortive UserCancelled = True"
| "isAbortive (Error e) = True"
| "isAbortive InvalidStream = True"
| "isAbortive ev = False"

text \<open>The call of \<^verbatim>\<open>functionCalls\<close> on the chunk throws.\<close>

definition callsThrow :: "response \<Rightarrow> bool" where
  "callsThrow resp = (case functionCalls resp of Some (Inl e) \<Rightarrow> True | _ \<Rightarrow> False)"

text \<open>The function calls the loop body iterates over.\<close>

definition chunkCalls :: "response \<Rightarrow> function_call list" where
  "chunkCalls resp = (case functionCalls resp of Some (Inr (Some cs)) \<Rightarrow> cs | _ \<Rightarrow> [])"

text \<open>
  A stream item that carries no finish reason and whose processing does not throw: a retry
  marker, an undefined chunk, or such a chunk.
\<close>

fun quietItem :: "stream_event \<Rightarrow> bool" where
  "quietItem (ChunkEvent (Some resp)) = (\<not> truthy (chunkFinishReason resp) \<and> \<not> callsThrow resp)"
| "quietItem ev = True"

text \<open>
  The citations that the loop body adds to the pending set for a stream item: those of a
  defined chunk that is not a thought chunk.
\<close>

fun itemCitations :: "stream_event \<Rightarrow> string list" where
  "itemCitations (ChunkEvent (Some resp)) = (if isThoughtChunk resp then [] else getCitations resp)"
| "itemCitations ev = []"

text \<open>A stream item that carries no citation.\<close>

fun citesNothing :: "stream_event \<Rightarrow> bool" where
  "citesNothing (ChunkEvent (Some resp)) = (getCitations resp = [])"
| "citesNothing ev = True"

text \<open>A line that consists of white space only (the empty line included).\<close>

definition blankLine :: "string \<Rightarrow> bool" where
  "blankLine l = list_all isWhiteSpace l"

text \<open>
  The summary as the specification words it, to be compared with \<open>parseThought\<close>: the
  first non-empty line, or the first 100 characters when there is none.
\<close>

definition firstNonEmptyLineSummary :: "string \<Rightarrow> string" where
  "firstNonEmptyLineSummary txt =
     (case filter (\<lambda>l. l \<noteq> []) (splitOn (CHR 0x0A) txt) of
        [] \<Rightarrow> take 100 txt | l # ls \<Rightarrow> l)"

section \<open>The tools\<close>

subsection \<open>Tool results (src/src/tools/toolBase.ts)\<close>

record tool_config =
  workspaceDir :: string
  respectGitignore :: "bool option"
  ignorePatterns :: "string list option"

record glob_display =
  pattern :: string
  matchCount :: nat
  returnedCount :: nat
  truncated :: bool
  matches :: "string list"

record grep_hit =
  hitFile :: string
  hitLine :: nat
  hitContent :: string

record grep_display =
  grepPattern :: string
  filesSearched :: nat
  filesWithMatches :: nat
  grepMatchCount :: nat
  grepTruncated :: bool
  grepMatches :: "grep_hit list"

text \<open>
  The display object of a result: the one of the file reader (its text and the file path),
  of the glob tool, of the grep tool and of the directory lister.
\<close>

datatype entry_type = FileEntry | DirectoryEntry

record directory_display =
  dirPath :: string
  entryCount :: nat
  dirRecursive :: bool
  dirEntries :: "(string \<times> entry_type) list"

datatype tool_result_display =
    FileDisplay string string
  | GlobDisplay glob_display
  | GrepDisplay grep_display
  | DirectoryDisplay directory_display

record tool_result =
  parts :: "string list"
  success :: bool
  resultError :: "string option"
  display :: "tool_result_display option"

definition createSuccessResult :: "string \<Rightarrow> tool_result_display option \<Rightarrow> tool_result" where
  "createSuccessResult content d =
     \<lparr>parts = [content], success = True, resultError = None, display = d\<rparr>"

definition createErrorResult :: "string \<Rightarrow> tool_result" where
  "createErrorResult msg =
     \<lparr>parts = [''Error: '' @ msg], success = False, resultError = Some msg, display = None\<rparr>"

subsection \<open>The platform and the libraries\<close>

text \<open>
  What the tools call outside the repository is a parameter of the model: the working
  directory of the process, the \<^verbatim>\<open>glob\<close> library (pattern, \<^verbatim>\<open>cwd\<close> option and
  ignore list), \<^verbatim>\<open>readFile\<close> (path and encoding), \<^verbatim>\<open>readdir\<close> and
  \<^verbatim>\<open>stat\<close>, the \<^verbatim>\<open>RegExp\<close> constructor (pattern and flags; \<open>None\<close> is a
  syntax error, otherwise the function that \<^verbatim>\<open>exec\<close> computes from position 0: the
  index and the length of the match), the conversion of a number to a string and
  \<^verbatim>\<open>toFixed(1)\<close>,
  \<^verbatim>\<open>path.relative\<close>, \<^verbatim>\<open>path.join\<close> and \<^verbatim>\<open>localeCompare\<close>. Each call of the
  file system is logged, so that a result tells which accesses were made before it.
\<close>

record dirent =
  direntName :: string
  direntIsDirectory :: bool
  direntIsFile :: bool

record file_stat =
  statIsDirectory :: bool
  statSize :: nat

datatype fs_call =
    GlobCall string string "string list"
  | ReadFileCall string string
  | ReaddirCall string
  | StatCall string

record environment =
  processCwd :: string
  globLib :: "string \<Rightarrow> string \<Rightarrow> string list \<Rightarrow> thrown + string list"
  readFileLib :: "string \<Rightarrow> string \<Rightarrow> thrown + string"
  readdirLib :: "string \<Rightarrow> thrown + dirent list"
  statLib :: "string \<Rightarrow> thrown + file_stat"
  regExp :: "string \<Rightarrow> string \<Rightarrow> (string \<Rightarrow> (nat \<times> nat) option) option"
  numberToString :: "rat \<Rightarrow> string"
  toFixed1 :: "rat \<Rightarrow> string"
  pathRelative :: "string \<Rightarrow> string \<Rightarrow> string"
  pathJoin :: "string \<Rightarrow> string \<Rightarrow> string"
  localeCompare :: "string \<Rightarrow> string \<Rightarrow> int"

text \<open>The conversion of a parameter value to a string inside a template literal.\<close>

fun stringOf :: "(rat \<Rightarrow> string) \<Rightarrow> json_value \<Rightarrow> string" where
  "stringOf num JNull = ''null''"
| "stringOf num (JBool b) = (if b then ''true'' else ''false'')"
| "stringOf num (JNum r) = num r"
| "stringOf num (JStr s) = s"
| "stringOf num (JArr xs) =
     joinWith '','' (map (\<lambda>x. if x = JNull then [] else stringOf num x) xs)"
| "stringOf num (JObj kvs) = ''[object Object]''"

definition templateString :: "(rat \<Rightarrow> string) \<Rightarrow> json_value option \<Rightarrow> string" where
  "templateString num v = (case v of None \<Rightarrow> ''undefined'' | Some j \<Rightarrow> stringOf num j)"

text \<open>
  The spread of \<^verbatim>\<open>this.config.ignorePatterns\<close> into an array literal throws a
  \<^verbatim>\<open>TypeError\<close> when the field is undefined; the wording of its message is the
  engine's.
\<close>

definition spreadTypeError :: thrown where
  "spreadTypeError = TypeError ''this.config.ignorePatterns is not iterable''"

text \<open>
  The \<^verbatim>\<open>catch\<close> block that closes \<^verbatim>\<open>execute\<close> in the glob and grep tools: an
  \<open>InvalidArgumentError\<close> is thrown on, anything else is wrapped.
\<close>

definition rethrow :: "string \<Rightarrow> thrown \<Rightarrow> thrown" where
  "rethrow tool e =
     (case e of
        InvalidArgumentError a r \<Rightarrow> e
      | _ \<Rightarrow> ToolExecutionError tool (messageOf e))"

text \<open>The parameter \<^verbatim>\<open>maxResults\<close>: a positive number, or else the default.\<close>

definition maxResultsOf :: "json_object \<Rightarrow> rat \<Rightarrow> rat" where
  "maxResultsOf params dflt =
     (case map_of params ''maxResults'' of
        Some (JNum r) \<Rightarrow> if r > 0 then r else dflt
      | _ \<Rightarrow> dflt)"

subsection \<open>GlobTool (the glob tool, in src/src/config.ts)\<close>

definition globDefaultIgnores :: "string list" where
  "globDefaultIgnores =
     [''**/node_modules/**'', ''**/.git/**'', ''**/dist/**'', ''**/build/**'', ''**/.next/**'']"

definition GlobTool_formatResult ::
  "environment \<Rightarrow> string list \<Rightarrow> nat \<Rightarrow> bool \<Rightarrow> string \<Rightarrow> string" where
  "GlobTool_formatResult env ms totalCount trunc pat =
     (if length ms = 0 then ''No files found matching pattern: '' @ pat
      else joinWith [CHR 0x0A]
        ([''Found '' @ numberToString env (of_nat totalCount) @ '' file'' @
            (if totalCount = 1 then [] else ''s'') @ '' matching '' @ [CHR 0x22] @ pat @ [CHR 0x22] @
            (if trunc then '' (showing first '' @ numberToString env (of_nat (length ms)) @ '')'' else []) @
            '':'',
          []] @
         map (\<lambda>f. ''  '' @ f) ms @
         (if trunc
          then [[], ''('' @ numberToString env (of_nat totalCount - of_nat (length ms)) @
                    '' more files not shown. Use maxResults parameter to see more.)'']
          else [])))"

definition stringItems :: "json_value list \<Rightarrow> string list" where
  "stringItems xs = concat (map (\<lambda>x. case x of JStr s \<Rightarrow> [s] | _ \<Rightarrow> []) xs)"

definition GlobTool_execute ::
  "tool_config \<Rightarrow> environment \<Rightarrow> (nat \<Rightarrow> bool) \<Rightarrow> json_object \<Rightarrow>
   fs_call list \<times> (thrown + tool_result)" where
  "GlobTool_execute cfg env sig params =
     (case map_of params ''pattern'' of
        Some (JStr pat) \<Rightarrow>
          (if trim pat = []
           then ([], Inl (InvalidArgumentError ''pattern'' pat))
           else
             (let extraIgnores = (case map_of params ''ignore'' of
                                    Some (JArr xs) \<Rightarrow> stringItems xs | _ \<Rightarrow> []);
                  maxResults = maxResultsOf params 100
              in case ignorePatterns cfg of
                   None \<Rightarrow> ([], Inl (rethrow ''glob'' spreadTypeError))
                 | Some configured \<Rightarrow>
                     (let allIgnorePatterns = configured @ extraIgnores @ globDefaultIgnores;
                          call = GlobCall pat (workspaceDir cfg) allIgnorePatterns
                      in case globLib env pat (workspaceDir cfg) allIgnorePatterns of
                           Inl e \<Rightarrow> ([call], Inl (rethrow ''glob'' e))
                         | Inr found \<Rightarrow>
                             (let limitedMatches = take (nat \<lfloor>maxResults\<rfloor>) found;
                                  trunc = (of_nat (length found) > maxResults)
                              in ([call],
                                  Inr (createSuccessResult
                                         (GlobTool_formatResult env limitedMatches (length found) trunc pat)
                                         (Some (GlobDisplay
                                            \<lparr>pattern = pat, matchCount = length found,
                                             returnedCount = length limitedMatches,
                                             truncated = trunc, matches = limitedMatches\<rparr>))))))))
      | other \<Rightarrow>
          ([], Inl (InvalidArgumentError ''pattern'' (templateString (numberToString env) other))))"

subsection \<open>GrepTool (src/src/tools/grep.ts)\<close>

record grep_match =
  matchFile :: string
  matchLine :: nat
  matchContent :: string
  matchStart :: nat
  matchEnd :: nat

definition grepDefaultIgnores :: "string list" where
  "grepDefaultIgnores =
     [''**/node_modules/**'', ''**/.git/**'', ''**/dist/**'', ''**/build/**'', ''**/.next/**'',
      ''**/*.min.js'', ''**/*.map'', ''**/*.lock'', ''**/package-lock.json'', ''**/yarn.lock'']"

text \<open>
  The inner loop over the lines of one file: the matches so far and the flag
  \<^verbatim>\<open>fileHasMatches\<close>. The regular expression is global, and \<^verbatim>\<open>lastIndex\<close> is 0
  before every \<^verbatim>\<open>exec\<close>: the source resets it after a match, and a failed
  \<^verbatim>\<open>exec\<close> resets it itself.
\<close>

fun grepLines ::
  "(string \<Rightarrow> (nat \<times> nat) option) \<Rightarrow> rat \<Rightarrow> string \<Rightarrow> nat \<Rightarrow> grep_match list \<times> bool \<Rightarrow>
   string list \<Rightarrow> grep_match list \<times> bool" where
  "grepLines exec maxResults f i (ms, has) [] = (ms, has)"
| "grepLines exec maxResults f i (ms, has) (l # ls) =
     (if of_nat (length ms) < maxResults
      then (case exec l of
              Some (idx, len) \<Rightarrow>
                grepLines exec maxResults f (Suc i)
                  (ms @ [\<lparr>matchFile = f, matchLine = i + 1, matchContent = trim l,
                          matchStart = idx, matchEnd = idx + len\<rparr>], True) ls
            | None \<Rightarrow> grepLines exec maxResults f (Suc i) (ms, has) ls)
      else (ms, has))"

record grep_scan =
  scanMatches :: "grep_match list"
  scanSearched :: nat
  scanWithMatches :: nat
  scanLog :: "fs_call list"

text \<open>
  The loop over the files; \<open>sig k\<close> is what the read of \<^verbatim>\<open>signal?.aborted\<close>
  at the top of iteration \<open>k\<close> returns.
\<close>

fun grepFiles ::
  "tool_config \<Rightarrow> environment \<Rightarrow> (nat \<Rightarrow> bool) \<Rightarrow> (string \<Rightarrow> (nat \<times> nat) option) \<Rightarrow> rat \<Rightarrow>
   nat \<Rightarrow> grep_scan \<Rightarrow> string list \<Rightarrow> grep_scan" where
  "grepFiles cfg env sig exec maxResults k sc [] = sc"
| "grepFiles cfg env sig exec maxResults k sc (f # fs) =
     (if sig k then sc
      else if of_nat (length (scanMatches sc)) \<ge> maxResults then sc
      else
        (let absolutePath = resolve (processCwd env) [workspaceDir cfg, f];
             sc1 = sc\<lparr>scanLog := scanLog sc @ [ReadFileCall absolutePath ''utf-8'']\<rparr>
         in case readFileLib env absolutePath ''utf-8'' of
              Inl e \<Rightarrow> grepFiles cfg env sig exec maxResults (Suc k) sc1 fs
            | Inr text \<Rightarrow>
                (case grepLines exec maxResults f 0 (scanMatches sc1, False) (splitOn (CHR 0x0A) text) of
                   (ms, fileHasMatches) \<Rightarrow>
                     grepFiles cfg env sig exec maxResults (Suc k)
                       (sc1\<lparr>scanMatches := ms,
                            scanSearched := scanSearched sc1 + 1,
                            scanWithMatches := scanWithMatches sc1 + (if fileHasMatches then 1 else 0)\<rparr>)
                       fs)))"

fun addToGroup :: "(string \<times> grep_match list) list \<Rightarrow> grep_match \<Rightarrow> (string \<times> grep_match list) list" where
  "addToGroup [] m = [(matchFile m, [m])]"
| "addToGroup ((f, ms) # rest) m =
     (if f = matchFile m then (f, ms @ [m]) # rest else (f, ms) # addToGroup rest m)"

definition GrepTool_formatResult ::
  "environment \<Rightarrow> grep_match list \<Rightarrow> nat \<Rightarrow> nat \<Rightarrow> string \<Rightarrow> rat \<Rightarrow> string" where
  "GrepTool_formatResult env ms searched withMatches pat maxResults =
     (if length ms = 0
      then ''No matches found for pattern '' @ [CHR 0x22] @ pat @ [CHR 0x22] @ '' (searched '' @
           numberToString env (of_nat searched) @ '' files)''
      else joinWith [CHR 0x0A]
        ([''Found '' @ numberToString env (of_nat (length ms)) @ '' match'' @
            (if length ms = 1 then [] else ''es'') @ '' in '' @
            numberToString env (of_nat withMatches) @ '' file'' @
            (if withMatches = 1 then [] else ''s'') @ '' (searched '' @
            numberToString env (of_nat searched) @ '' files):'',
          []] @
         concat (map (\<lambda>(f, fileMatches).
                   [f @ '':''] @
                   map (\<lambda>m. ''  '' @ numberToString env (of_nat (matchLine m)) @ '': '' @ matchContent m) fileMatches @
                   [[]])
                 (foldl addToGroup [] ms)) @
         (if of_nat (length ms) \<ge> maxResults
          then [''(More matches may exist. Showing first '' @ numberToString env maxResults @ '' results.)'']
          else [])))"

text \<open>
  \<^verbatim>\<open>execute\<close>. The parameter \<^verbatim>\<open>contextLines\<close> is parsed by the source and then
  never used; it is left out.
\<close>

definition GrepTool_execute ::
  "tool_config \<Rightarrow> environment \<Rightarrow> (nat \<Rightarrow> bool) \<Rightarrow> json_object \<Rightarrow>
   fs_call list \<times> (thrown + tool_result)" where
  "GrepTool_execute cfg env sig params =
     (case map_of params ''pattern'' of
        Some (JStr pat) \<Rightarrow>
          (if trim pat = []
           then ([], Inl (InvalidArgumentError ''pattern'' pat))
           else
             (let filePattern = (case map_of params ''filePattern'' of
                                   Some (JStr fp) \<Rightarrow> if trim fp = [] then ''**/*'' else fp
                                 | _ \<Rightarrow> ''**/*'');
                  caseSensitive = (map_of params ''caseSensitive'' = Some (JBool True));
                  maxResults = maxResultsOf params 50;
                  flags = (if caseSensitive then ''g'' else ''gi'')
              in case regExp env pat flags of
                   None \<Rightarrow> ([], Inl (InvalidArgumentError ''pattern'' pat))
                 | Some exec \<Rightarrow>
                    (case ignorePatterns cfg of
                       None \<Rightarrow> ([], Inl (rethrow ''grep'' spreadTypeError))
                     | Some configured \<Rightarrow>
                        (let allIgnorePatterns = configured @ grepDefaultIgnores;
                             call = GlobCall filePattern (workspaceDir cfg) allIgnorePatterns
                         in case globLib env filePattern (workspaceDir cfg) allIgnorePatterns of
                              Inl e \<Rightarrow> ([call], Inl (rethrow ''grep'' e))
                            | Inr files \<Rightarrow>
                               (let sc = grepFiles cfg env sig exec maxResults 0
                                           \<lparr>scanMatches = [], scanSearched = 0,
                                            scanWithMatches = 0, scanLog = [call]\<rparr> files;
                                    ms = scanMatches sc
                                in (scanLog sc,
                                    Inr (createSuccessResult
                                           (GrepTool_formatResult env ms (scanSearched sc)
                                              (scanWithMatches sc) pat maxResults)
                                           (Some (GrepDisplay
                                              \<lparr>grepPattern = pat,
                                               filesSearched = scanSearched sc,
                                               filesWithMatches = scanWithMatches sc,
                                               grepMatchCount = length ms,
                                               grepTruncated = (of_nat (length ms) \<ge> maxResults),
                                               grepMatches =
                                                 map (\<lambda>m. \<lparr>hitFile = matchFile m, hitLine = matchLine m,
                                                             hitContent = matchContent m\<rparr>) ms\<rparr>)))))))))
      | other \<Rightarrow>
          ([], Inl (InvalidArgumentError ''pattern'' (templateString (numberToString env) other))))"

subsection \<open>ReadFileTool (the file reader, in src/src/tools/toolBase.ts)\<close>

fun includesText :: "string \<Rightarrow> string \<Rightarrow> bool" where
  "includesText [] sub = (sub = [])"
| "includesText (c # cs) sub = (startsWith (c # cs) sub \<or> includesText cs sub)"

text \<open>Truthiness of a parameter value, for \<^verbatim>\<open>params['encoding'] || 'utf-8'\<close>.\<close>

fun truthyValue :: "json_value option \<Rightarrow> bool" where
  "truthyValue None = False"
| "truthyValue (Some JNull) = False"
| "truthyValue (Some (JBool b)) = b"
| "truthyValue (Some (JNum r)) = (r \<noteq> 0)"
| "truthyValue (Some (JStr s)) = (s \<noteq> [])"
| "truthyValue (Some v) = True"

text \<open>
  \<^verbatim>\<open>execute\<close> of the file reader. The \<open>FileOutsideWorkspaceError\<close> it throws is
  caught by its own \<^verbatim>\<open>catch\<close> block and turned into an error result, as is every
  failure of \<^verbatim>\<open>readFile\<close>.
\<close>

definition ReadFileTool_execute ::
  "tool_config \<Rightarrow> environment \<Rightarrow> (nat \<Rightarrow> bool) \<Rightarrow> json_object \<Rightarrow>
   fs_call list \<times> (thrown + tool_result)" where
  "ReadFileTool_execute cfg env sig params =
     (case map_of params ''file_path'' of
        Some (JStr filePath) \<Rightarrow>
          (let encoding = (if truthyValue (map_of params ''encoding'')
                           then the (map_of params ''encoding'') else JStr ''utf-8'')
           in if encoding \<notin> set [JStr ''utf-8'', JStr ''ascii'', JStr ''base64'']
              then ([], Inr (createErrorResult ''Invalid encoding. Must be utf-8, ascii, or base64''))
              else
                (let absolutePath = resolve (processCwd env) [workspaceDir cfg, filePath];
                     validation = validatePathWithinWorkspace (processCwd env) absolutePath (workspaceDir cfg)
                 in if \<not> valid validation
                    then ([], Inr (createErrorResult (messageOf FileOutsideWorkspaceError)))
                    else if sig 0
                    then ([], Inr (createErrorResult ''Operation cancelled''))
                    else
                      (let enc = (case encoding of JStr e \<Rightarrow> e | _ \<Rightarrow> [])
                       in case readFileLib env absolutePath enc of
                            Inr text \<Rightarrow>
                              (let displayPath = pathRelative env (workspaceDir cfg) absolutePath
                               in ([ReadFileCall absolutePath enc],
                                   Inr (createSuccessResult text
                                          (Some (FileDisplay
                                             (''Read '' @ numberToString env (of_nat (length text)) @
                                              '' characters from '' @ displayPath)
                                             displayPath)))))
                          | Inl e \<Rightarrow>
                              ([ReadFileCall absolutePath enc],
                               Inr (case e of
                                      NonErrorValue m s \<Rightarrow> createErrorResult ''Unknown error reading file''
                                    | _ \<Rightarrow>
                                       if includesText (messageOf e) ''ENOENT''
                                       then createErrorResult (''File not found: '' @ filePath)
                                       else createErrorResult (''Failed to read file: '' @ filePath))))))
      | other \<Rightarrow> ([], Inr (createErrorResult ''file_path must be a string'')))"

subsection \<open>ListDirectoryTool (src/src/tools/listDirectory.ts)\<close>

record directory_entry =
  entryName :: string
  entryType :: entry_type
  entrySize :: "nat option"

definition shouldIgnore :: "string \<Rightarrow> bool" where
  "shouldIgnore nm =
     (nm \<in> set [''node_modules'', ''.git'', ''dist'', ''build'', ''.next'', ''coverage'',
                ''.nyc_output'', ''__pycache__'', ''.pytest_cache'', ''.DS_Store''])"

text \<open>
  The entry built for a directory item in both listings: its type, and for a file the size
  that \<^verbatim>\<open>stat\<close> reports (a failure of \<^verbatim>\<open>stat\<close> is ignored). The call of
  \<^verbatim>\<open>stat\<close>, if any, is returned with it.
\<close>

definition makeEntry ::
  "environment \<Rightarrow> string \<Rightarrow> string \<Rightarrow> dirent \<Rightarrow> directory_entry \<times> fs_call list" where
  "makeEntry env nm filePath item =
     (let entry = \<lparr>entryName = nm,
                    entryType = (if direntIsDirectory item then DirectoryEntry else FileEntry),
                    entrySize = None\<rparr>
      in if direntIsFile item
         then (case statLib env filePath of
                 Inl e \<Rightarrow> (entry, [StatCall filePath])
               | Inr st \<Rightarrow> (entry\<lparr>entrySize := Some (statSize st)\<rparr>, [StatCall filePath]))
         else (entry, []))"

text \<open>
  The loop of \<^verbatim>\<open>listSingle\<close>; \<open>sig k\<close> is what the read of
  \<^verbatim>\<open>signal?.aborted\<close> at the top of iteration \<open>k\<close> returns.
\<close>

fun listSingleLoop ::
  "environment \<Rightarrow> (nat \<Rightarrow> bool) \<Rightarrow> string \<Rightarrow> bool \<Rightarrow> nat \<Rightarrow> directory_entry list \<times> fs_call list \<Rightarrow>
   dirent list \<Rightarrow> directory_entry list \<times> fs_call list" where
  "listSingleLoop env sig dir showHidden k (entries, calls) [] = (entries, calls)"
| "listSingleLoop env sig dir showHidden k (entries, calls) (item # items) =
     (if sig k then (entries, calls)
      else if \<not> showHidden \<and> startsWith (direntName item) ''.''
        then listSingleLoop env sig dir showHidden (Suc k) (entries, calls) items
      else if shouldIgnore (direntName item)
        then listSingleLoop env sig dir showHidden (Suc k) (entries, calls) items
      else
        (case makeEntry env (direntName item) (pathJoin env dir (direntName item)) item of
           (entry, statCalls) \<Rightarrow>
             listSingleLoop env sig dir showHidden (Suc k) (entries @ [entry], calls @ statCalls) items))"

text \<open>
  A stable sort by a comparison function, as \<^verbatim>\<open>Array.prototype.sort\<close> is: an insertion
  sort from the right, which puts an element before the first element it does not follow.
\<close>

fun insertBy :: "('a \<Rightarrow> 'a \<Rightarrow> int) \<Rightarrow> 'a \<Rightarrow> 'a list \<Rightarrow> 'a list" where
  "insertBy cmp a [] = [a]"
| "insertBy cmp a (b # bs) = (if cmp a b \<le> 0 then a # b # bs else b # insertBy cmp a bs)"

definition sortBy :: "('a \<Rightarrow> 'a \<Rightarrow> int) \<Rightarrow> 'a list \<Rightarrow> 'a list" where
  "sortBy cmp xs = foldr (insertBy cmp) xs []"

definition compareEntries :: "environment \<Rightarrow> directory_entry \<Rightarrow> directory_entry \<Rightarrow> int" where
  "compareEntries env a b =
     (if entryType a = entryType b then localeCompare env (entryName a) (entryName b)
      else if entryType a = DirectoryEntry then - 1 else 1)"

text \<open>
  \<^verbatim>\<open>listSingle\<close> and \<^verbatim>\<open>listRecursive\<close> return the entries, or what they throw,
  together with the number of reads of the signal and the calls made so far.
\<close>

definition listSingle ::
  "environment \<Rightarrow> (nat \<Rightarrow> bool) \<Rightarrow> string \<Rightarrow> bool \<Rightarrow> fs_call list \<times> (thrown + directory_entry list)" where
  "listSingle env sig dir showHidden =
     (case readdirLib env dir of
        Inl e \<Rightarrow> ([ReaddirCall dir], Inl e)
      | Inr items \<Rightarrow>
          (case listSingleLoop env sig dir showHidden 0 ([], [ReaddirCall dir]) items of
             (entries, calls) \<Rightarrow> (calls, Inr (sortBy (compareEntries env) entries))))"

text \<open>
  \<^verbatim>\<open>listRecursive\<close>. The source stops when \<^verbatim>\<open>currentDepth >= maxDepth\<close> and
  calls itself with \<^verbatim>\<open>currentDepth + 1\<close>; the model counts the levels that remain,
  \<^verbatim>\<open>maxDepth\<close> rounded up less \<^verbatim>\<open>currentDepth\<close>. The second function is the loop
  over the items of one directory. The state threaded through both is the number of reads
  of the signal and the calls made.
\<close>

fun listRecursive ::
  "tool_config \<Rightarrow> environment \<Rightarrow> (nat \<Rightarrow> bool) \<Rightarrow> bool \<Rightarrow> nat \<Rightarrow> string \<Rightarrow> nat \<times> fs_call list \<Rightarrow>
   (thrown + directory_entry list) \<times> nat \<times> fs_call list"
and listRecursiveItems ::
  "tool_config \<Rightarrow> environment \<Rightarrow> (nat \<Rightarrow> bool) \<Rightarrow> bool \<Rightarrow> nat \<Rightarrow> string \<Rightarrow> directory_entry list \<Rightarrow>
   nat \<times> fs_call list \<Rightarrow> dirent list \<Rightarrow> (thrown + directory_entry list) \<times> nat \<times> fs_call list" where
  "listRecursive cfg env sig showHidden 0 dir (k, calls) = (Inr [], k, calls)"
| "listRecursive cfg env sig showHidden (Suc remaining) dir (k, calls) =
     (case readdirLib env dir of
        Inl e \<Rightarrow> (Inl e, k, calls @ [ReaddirCall dir])
      | Inr items \<Rightarrow>
          listRecursiveItems cfg env sig showHidden remaining dir [] (k, calls @ [ReaddirCall dir]) items)"
| "listRecursiveItems cfg env sig showHidden remaining dir entries (k, calls) [] =
     (Inr entries, k, calls)"
| "listRecursiveItems cfg env sig showHidden remaining dir entries (k, calls) (item # items) =
     (if sig k then (Inr entries, Suc k, calls)
      else if \<not> showHidden \<and> startsWith (direntName item) ''.''
        then listRecursiveItems cfg env sig showHidden remaining dir entries (Suc k, calls) items
      else if shouldIgnore (direntName item)
        then listRecursiveItems cfg env sig showHidden remaining dir entries (Suc k, calls) items
      else
        (let child = pathJoin env dir (direntName item);
             relativePath = pathRelative env (workspaceDir cfg) child
         in case makeEntry env relativePath child item of
              (entry, statCalls) \<Rightarrow>
                if direntIsDirectory item
                then (case listRecursive cfg env sig showHidden remaining child
                             (Suc k, calls @ statCalls) of
                        (Inl e, k', calls') \<Rightarrow> (Inl e, k', calls')
                      | (Inr subEntries, k', calls') \<Rightarrow>
                          listRecursiveItems cfg env sig showHidden remaining dir
                            (entries @ [entry] @ subEntries) (k', calls') items)
                else listRecursiveItems cfg env sig showHidden remaining dir
                       (entries @ [entry]) (Suc k, calls @ statCalls) items))"

definition formatSize :: "environment \<Rightarrow> nat \<Rightarrow> string" where
  "formatSize env bytes =
     (if bytes < 1024 then numberToString env (of_nat bytes) @ ''B''
      else if bytes < 1024 * 1024 then toFixed1 env (of_nat bytes / 1024) @ ''KB''
      else toFixed1 env (of_nat bytes / (1024 * 1024)) @ ''MB'')"

definition entryLine :: "environment \<Rightarrow> string \<Rightarrow> directory_entry \<Rightarrow> string" where
  "entryLine env nm entry =
     ''  '' @ (if entryType entry = DirectoryEntry then ''[DIR]'' else ''[FILE]'') @ '' '' @ nm @
     (case entrySize entry of None \<Rightarrow> [] | Some sz \<Rightarrow> '' ('' @ formatSize env sz @ '')'')"

text \<open>
  The part of a name before its last separator and the part after it
  (\<^verbatim>\<open>substring\<close> around \<^verbatim>\<open>lastIndexOf('/')\<close>), for a name that has one.
\<close>

definition dirOf :: "string \<Rightarrow> string" where
  "dirOf nm = (if CHR ''/'' \<in> set nm then joinWith ''/'' (butlast (splitOn CHR ''/'' nm)) else ''.'')"

definition baseOf :: "string \<Rightarrow> string" where
  "baseOf nm = (if CHR ''/'' \<in> set nm then last (splitOn CHR ''/'' nm) else nm)"

fun addToDirectory ::
  "(string \<times> directory_entry list) list \<Rightarrow> directory_entry \<Rightarrow> (string \<times> directory_entry list) list" where
  "addToDirectory [] e = [(dirOf (entryName e), [e])]"
| "addToDirectory ((d, es) # rest) e =
     (if d = dirOf (entryName e) then (d, es @ [e]) # rest else (d, es) # addToDirectory rest e)"

definition ListDirectoryTool_formatResult ::
  "environment \<Rightarrow> directory_entry list \<Rightarrow> string \<Rightarrow> bool \<Rightarrow> rat \<Rightarrow> string" where
  "ListDirectoryTool_formatResult env entries path recursive maxDepth =
     (if length entries = 0 then ''Directory '' @ [CHR 0x22] @ path @ [CHR 0x22] @ '' is empty''
      else joinWith [CHR 0x0A]
        ([''Contents of '' @ [CHR 0x22] @ path @ [CHR 0x22] @
            (if recursive then '' (recursive, depth '' @ numberToString env maxDepth @ '')'' else []) @
            '':'',
          []] @
         (if recursive
          then concat (map (\<lambda>(d, dirEntries).
                         (if d \<noteq> ''.'' then [d @ ''/:''] else []) @
                         map (\<lambda>e. entryLine env (baseOf (entryName e)) e) dirEntries @
                         [[]])
                       (sortBy (\<lambda>a b. localeCompare env (fst a) (fst b))
                          (foldl addToDirectory [] entries)))
          else map (\<lambda>e. entryLine env (entryName e) e) entries)))"

text \<open>
  \<^verbatim>\<open>execute\<close>. Its \<^verbatim>\<open>catch\<close> block throws on the three errors the body raises
  itself and wraps anything else.
\<close>

definition rethrowListing :: "thrown \<Rightarrow> thrown" where
  "rethrowListing e =
     (case e of
        InvalidArgumentError a r \<Rightarrow> e
      | FileOutsideWorkspaceError \<Rightarrow> e
      | DirectoryListError d \<Rightarrow> e
      | _ \<Rightarrow> ToolExecutionError ''list_directory'' (messageOf e))"

definition ListDirectoryTool_execute ::
  "tool_config \<Rightarrow> environment \<Rightarrow> (nat \<Rightarrow> bool) \<Rightarrow> json_object \<Rightarrow>
   fs_call list \<times> (thrown + tool_result)" where
  "ListDirectoryTool_execute cfg env sig params =
     (case map_of params ''path'' of
        Some (JStr path) \<Rightarrow>
          (let absolutePath = resolve (processCwd env) [workspaceDir cfg, path];
               validation = validatePathWithinWorkspace (processCwd env) absolutePath (workspaceDir cfg)
           in if \<not> valid validation then ([], Inl FileOutsideWorkspaceError)
              else
                (let recursive = (map_of params ''recursive'' = Some (JBool True));
                     showHidden = (map_of params ''showHidden'' = Some (JBool True));
                     maxDepth = (case map_of params ''maxDepth'' of
                                   Some (JNum r) \<Rightarrow> if r > 0 then min r 5 else 2
                                 | _ \<Rightarrow> 2)
                 in case statLib env absolutePath of
                      Inl e \<Rightarrow> ([StatCall absolutePath], Inl (DirectoryListError path))
                    | Inr dirStat \<Rightarrow>
                        if \<not> statIsDirectory dirStat
                        then ([StatCall absolutePath], Inl (DirectoryListError path))
                        else
                          (case (if recursive
                                 then (case listRecursive cfg env sig showHidden (nat \<lceil>maxDepth\<rceil>)
                                              absolutePath (0, []) of
                                         (outcome, k, calls) \<Rightarrow> (calls, outcome))
                                 else listSingle env sig absolutePath showHidden) of
                             (calls, Inl e) \<Rightarrow> (StatCall absolutePath # calls, Inl (rethrowListing e))
                           | (calls, Inr entries) \<Rightarrow>
                               (StatCall absolutePath # calls,
                                Inr (createSuccessResult
                                       (ListDirectoryTool_formatResult env entries path recursive maxDepth)
                                       (Some (DirectoryDisplay
                                          \<lparr>dirPath = path, entryCount = length entries,
                                           dirRecursive = recursive,
                                           dirEntries = map (\<lambda>e. (entryName e, entryType e)) entries\<rparr>)))))))
      | other \<Rightarrow> ([], Inl (InvalidArgumentError ''path'' ''string'')))"

subsection \<open>ToolRegistry (src/src/tools/toolRegistry.ts)\<close>

text \<open>
  A tool object is its name and its \<^verbatim>\<open>execute\<close> method. The registry is a
  \<^verbatim>\<open>Map\<close> from names to tools, kept in insertion order; \<open>mapSet\<close> replaces the
  value of a key that is present and appends a new key.
\<close>

record tool =
  toolName :: string
  execute :: "json_object \<Rightarrow> (nat \<Rightarrow> bool) \<Rightarrow> fs_call list \<times> (thrown + tool_result)"

type_synonym tool_registry = "(string \<times> tool) list"

fun mapSet :: "(string \<times> 'v) list \<Rightarrow> string \<Rightarrow> 'v \<Rightarrow> (string \<times> 'v) list" where
  "mapSet [] k v = [(k, v)]"
| "mapSet ((k', v') # rest) k v = (if k' = k then (k, v) # rest else (k', v') # mapSet rest k v)"

definition addTool :: "tool_registry \<Rightarrow> tool \<Rightarrow> tool_registry" where
  "addTool reg t = mapSet reg (toolName t) t"

definition getTool :: "tool_registry \<Rightarrow> string \<Rightarrow> tool option" where
  "getTool reg nm = map_of reg nm"

definition getToolNames :: "tool_registry \<Rightarrow> string list" where
  "getToolNames reg = map fst reg"

definition ReadFileTool :: "tool_config \<Rightarrow> environment \<Rightarrow> tool" where
  "ReadFileTool cfg env = \<lparr>toolName = ''read_file'', execute = (\<lambda>params sig. ReadFileTool_execute cfg env sig params)\<rparr>"

definition GlobTool :: "tool_config \<Rightarrow> environment \<Rightarrow> tool" where
  "GlobTool cfg env = \<lparr>toolName = ''glob'', execute = (\<lambda>params sig. GlobTool_execute cfg env sig params)\<rparr>"

definition GrepTool :: "tool_config \<Rightarrow> environment \<Rightarrow> tool" where
  "GrepTool cfg env = \<lparr>toolName = ''grep'', execute = (\<lambda>params sig. GrepTool_execute cfg env sig params)\<rparr>"

definition ListDirectoryTool :: "tool_config \<Rightarrow> environment \<Rightarrow> tool" where
  "ListDirectoryTool cfg env =
     \<lparr>toolName = ''list_directory'', execute = (\<lambda>params sig. ListDirectoryTool_execute cfg env sig params)\<rparr>"

text \<open>The constructor registers the four default tools.\<close>

definition registerDefaultTools :: "tool_config \<Rightarrow> environment \<Rightarrow> tool_registry" where
  "registerDefaultTools cfg env =
     addTool (addTool (addTool (addTool [] (ReadFileTool cfg env)) (GlobTool cfg env)) (GrepTool cfg env))
       (ListDirectoryTool cfg env)"

text \<open>
  \<^verbatim>\<open>executeTool\<close>: the promise it returns is rejected (\<open>Inl\<close>) or fulfilled with
  the tool's result.
\<close>

definition executeTool ::
  "tool_registry \<Rightarrow> string \<Rightarrow> json_object \<Rightarrow> (nat \<Rightarrow> bool) \<Rightarrow> fs_call list \<times> (thrown + tool_result)" where
  "executeTool reg nm params sig =
     (case getTool reg nm of
        None \<Rightarrow> ([], Inl (PlainError (''Unknown tool: '' @ nm) None))
      | Some t \<Rightarrow> execute t params sig)"

text \<open>The number of items a result returns, and its truncation flag.\<close>

definition resultItems :: "tool_result \<Rightarrow> nat" where
  "resultItems r =
     (case display r of
        Some (GlobDisplay d) \<Rightarrow> length (matches d)
      | Some (GrepDisplay d) \<Rightarrow> length (grepMatches d)
      | Some (DirectoryDisplay d) \<Rightarrow> length (dirEntries d)
      | _ \<Rightarrow> 0)"

definition resultTruncated :: "tool_result \<Rightarrow> bool" where
  "resultTruncated r =
     (case display r of
        Some (GlobDisplay d) \<Rightarrow> truncated d
      | Some (GrepDisplay d) \<Rightarrow> grepTruncated d
      | _ \<Rightarrow> False)"

section \<open>Sample inputs\<close>

text \<open>Concrete chunks, transports and signals on which the theorems below are instantiated.\<close>

definition sampleCandidate :: candidate where
  "sampleCandidate = \<lparr>contentParts = None, candidateFinishReason = None, citationSources = None\<rparr>"

definition textChunk :: "string \<Rightarrow> response" where
  "textChunk t =
     \<lparr>candidates = Some [sampleCandidate\<lparr>contentParts := Some [\<lparr>partText = Some t, thought = None\<rparr>]\<rparr>],
      usageMetadata = None, functionCalls = None\<rparr>"


definition citedFinishChunk :: response where
  "citedFinishChunk =
     \<lparr>candidates = Some [sampleCandidate\<lparr>candidateFinishReason := Some ''STOP'',
          citationSources := Some [\<lparr>uri = Some ''https://b.example'', title = None\<rparr>,
                                   \<lparr>uri = Some ''https://a.example'', title = None\<rparr>,
                                   \<lparr>uri = Some ''https://b.example'', title = None\<rparr>]\<rparr>],
      usageMetadata = None, functionCalls = None\<rparr>"

definition thoughtChunk :: "string \<Rightarrow> response" where
  "thoughtChunk t =
     \<lparr>candidates = Some [\<lparr>contentParts = Some [\<lparr>partText = Some t, thought = Some True\<rparr>,
                                                \<lparr>partText = Some ''answer'', thought = None\<rparr>],
                          candidateFinishReason = Some ''STOP'',
                          citationSources = Some [\<lparr>uri = Some ''https://a.example'', title = None\<rparr>]\<rparr>],
      usageMetadata = None,
      functionCalls = Some (Inr (Some [\<lparr>fcName = Some ''glob'', fcArgs = None\<rparr>]))\<rparr>"

definition citingChunk :: response where
  "citingChunk =
     \<lparr>candidates = Some [\<lparr>contentParts = Some [\<lparr>partText = Some ''cited'', thought = None\<rparr>],
                          candidateFinishReason = None,
                          citationSources = Some [\<lparr>uri = Some ''https://b.example'', title = None\<rparr>]\<rparr>],
      usageMetadata = None, functionCalls = None\<rparr>"

definition throwingFinishChunk :: response where
  "throwingFinishChunk =
     \<lparr>candidates = Some [sampleCandidate\<lparr>candidateFinishReason := Some ''STOP''\<rparr>],
      usageMetadata = None, functionCalls = Some (Inl (PlainError ''boom'' None))\<rparr>"

definition sampleChat :: "stream_event list \<Rightarrow> lite_chat" where
  "sampleChat items = (\<lambda>call. Stream items EndOfStream)"

definition neverAborted :: "nat \<Rightarrow> bool" where
  "neverAborted = (\<lambda>k. False)"

definition alreadyAborted :: "nat \<Rightarrow> bool" where
  "alreadyAborted = (\<lambda>k. True)"

definition sampleStamp :: "nat \<Rightarrow> string" where
  "sampleStamp = (\<lambda>k. ''1700000000000-9ab3'')"

text \<open>
  Two paths written with backslashes: \<^verbatim>\<open>/repo\..\etc\passwd\<close>, and the relative
  \<^verbatim>\<open>../repo\secret.txt\<close>.
\<close>

definition escapingPath :: string where
  "escapingPath = ''/repo'' @ [CHR 0x5C] @ ''..'' @ [CHR 0x5C] @ ''etc'' @ [CHR 0x5C] @ ''passwd''"

definition siblingPath :: string where
  "siblingPath = ''../repo'' @ [CHR 0x5C] @ ''secret.txt''"

text \<open>
  A workspace \<^verbatim>\<open>/repo\<close> with two files, and a \<^verbatim>\<open>RegExp\<close> that reads its pattern
  as literal text.
\<close>

fun indexOf :: "string \<Rightarrow> string \<Rightarrow> nat option" where
  "indexOf [] sub = (if sub = [] then Some 0 else None)"
| "indexOf (c # cs) sub =
     (if startsWith (c # cs) sub then Some 0
      else (case indexOf cs sub of None \<Rightarrow> None | Some i \<Rightarrow> Some (Suc i)))"

definition literalRegExp :: "string \<Rightarrow> string \<Rightarrow> (string \<Rightarrow> (nat \<times> nat) option) option" where
  "literalRegExp pat flags =
     Some (\<lambda>l. case indexOf l pat of None \<Rightarrow> None | Some i \<Rightarrow> Some (i, length pat))"

definition sampleReadFile :: "string \<Rightarrow> string \<Rightarrow> thrown + string" where
  "sampleReadFile path enc =
     (if path = ''/repo/a.ts'' then Inr (''TODO a'' @ [CHR 0x0A] @ ''TODO b'' @ [CHR 0x0A] @ ''TODO c'')
      else if path = ''/repo/b.ts'' then Inr ''TODO d''
      else Inl (PlainError ''ENOENT: no such file or directory'' None))"

definition sampleReaddir :: "string \<Rightarrow> thrown + dirent list" where
  "sampleReaddir dir =
     (if dir = ''/repo''
      then Inr [\<lparr>direntName = ''src'', direntIsDirectory = True, direntIsFile = False\<rparr>,
                \<lparr>direntName = ''a.ts'', direntIsDirectory = False, direntIsFile = True\<rparr>,
                \<lparr>direntName = ''b.ts'', direntIsDirectory = False, direntIsFile = True\<rparr>]
      else if dir = ''/repo/src''
      then Inr [\<lparr>direntName = ''index.ts'', direntIsDirectory = False, direntIsFile = True\<rparr>]
      else Inl (PlainError ''ENOENT: no such file or directory'' None))"

definition sampleEnv :: environment where
  "sampleEnv =
     \<lparr>processCwd = ''/repo'',
      globLib = (\<lambda>pat dir ignore. Inr [''a.ts'', ''b.ts'']),
      readFileLib = sampleReadFile,
      readdirLib = sampleReaddir,
      statLib = (\<lambda>path. Inr \<lparr>statIsDirectory = (path = ''/repo'' \<or> path = ''/repo/src''), statSize = 20\<rparr>),
      regExp = literalRegExp,
      numberToString = (\<lambda>r. ''n''),
      toFixed1 = (\<lambda>r. ''n.n''),
      pathRelative = (\<lambda>a b. drop (Suc (length a)) b),
      pathJoin = (\<lambda>a b. a @ ''/'' @ b),
      localeCompare = (\<lambda>a b. if a < b then - 1 else if a = b then 0 else 1)\<rparr>"

definition sampleConfig :: tool_config where
  "sampleConfig = \<lparr>workspaceDir = ''/repo'', respectGitignore = None, ignorePatterns = Some []\<rparr>"

definition abortedFrom :: "nat \<Rightarrow> nat \<Rightarrow> bool" where
  "abortedFrom n = (\<lambda>k. n \<le> k)"

definition sampleRegistry :: tool_registry where
  "sampleRegistry =
     registerDefaultTools sampleConfig sampleEnv"

section \<open>Properties of the path validator\<close>

lemma splitOn_nonempty: "splitOn c xs \<noteq> []"
  by (induction xs) auto

text \<open>
  The same function with the recursive call made once, the form in which \<open>splitOn\<close> is
  evaluated: with the defining equations a long segment is computed twice at each character.
\<close>

lemma splitOn_step [code]:
  "splitOn c [] = [[]]"
  "splitOn c (x # xs) =
     (if x = c then [] # splitOn c xs
      else (case splitOn c xs of [] \<Rightarrow> [[x]] | w # ws \<Rightarrow> (x # w) # ws))"
  using splitOn_nonempty[of c xs] by (simp_all split: list.split)

lemma splitOn_free: "s \<in> set (splitOn c xs) \<Longrightarrow> c \<notin> set s"
proof (induction xs arbitrary: s)
  case Nil
  then show ?case by simp
next
  case (Cons x xs)
  show ?case
  proof (cases "x = c")
    case True
    with Cons show ?thesis by auto
  next
    case False
    with Cons.prems have "s = x # hd (splitOn c xs) \<or> s \<in> set (tl (splitOn c xs))" by simp
    then show ?thesis
    proof
      assume e: "s = x # hd (splitOn c xs)"
      have "hd (splitOn c xs) \<in> set (splitOn c xs)" using splitOn_nonempty by simp
      with Cons.IH have "c \<notin> set (hd (splitOn c xs))" by blast
      with e False show ?thesis by auto
    next
      assume "s \<in> set (tl (splitOn c xs))"
      then have "s \<in> set (splitOn c xs)" by (rule list.set_sel(2)[OF splitOn_nonempty])
      with Cons.IH show ?thesis by blast
    qed
  qed
qed

lemma splitOn_segment: "c \<notin> set s \<Longrightarrow> splitOn c (s @ c # rest) = s # splitOn c rest"
  by (induction s) auto

lemma splitOn_join:
  "segs \<noteq> [] \<Longrightarrow> \<forall>s\<in>set segs. c \<notin> set s \<Longrightarrow>
   splitOn c (joinWith [c] segs @ [c]) = segs @ [[]]"
proof (induction segs)
  case Nil
  then show ?case by simp
next
  case (Cons w ws)
  from Cons.prems have w: "c \<notin> set w" by simp
  show ?case
  proof (cases ws)
    case Nil
    then show ?thesis using splitOn_segment[OF w, of "[]"] by simp
  next
    case (Cons v vs)
    with Cons.IH Cons.prems have "splitOn c (joinWith [c] ws @ [c]) = ws @ [[]]" by simp
    with Cons show ?thesis using splitOn_segment[OF w, of "joinWith [c] (v # vs) @ [c]"] by simp
  qed
qed

lemma normalizeSegments_keeps:
  "\<forall>s\<in>set xs. s = [] \<or> normalSegment s \<Longrightarrow>
   normalizeSegments a res xs = res @ filter (\<lambda>s. s \<noteq> []) xs"
  by (induction xs arbitrary: res) (auto simp: normalSegment_def)

lemma normalizeSegments_normal:
  "\<forall>s\<in>set res. normalSegment s \<Longrightarrow> \<forall>s\<in>set xs. CHR ''/'' \<notin> set s \<Longrightarrow>
   \<forall>s\<in>set (normalizeSegments False res xs). normalSegment s"
proof (induction xs arbitrary: res)
  case Nil
  then show ?case by simp
next
  case (Cons x xs)
  from Cons.prems(2) have xs: "\<forall>s\<in>set xs. CHR ''/'' \<notin> set s" and x: "CHR ''/'' \<notin> set x" by auto
  consider (skip) "x = [] \<or> x = ''.''"
    | (up) "x = ''..''" "res \<noteq> [] \<and> last res \<noteq> ''..''"
    | (root) "x = ''..''" "\<not> (res \<noteq> [] \<and> last res \<noteq> ''..'')"
    | (push) "x \<noteq> []" "x \<noteq> ''.''" "x \<noteq> ''..''"
    by blast
  then show ?case
  proof cases
    case skip
    then have "normalizeSegments False res (x # xs) = normalizeSegments False res xs" by auto
    then show ?thesis using Cons.IH[OF Cons.prems(1) xs] by simp
  next
    case up
    have bl: "\<forall>s\<in>set (butlast res). normalSegment s"
      using Cons.prems(1) by (auto dest: in_set_butlastD)
    from up have "normalizeSegments False res (x # xs) = normalizeSegments False (butlast res) xs"
      by simp
    then show ?thesis using Cons.IH[OF bl xs] by simp
  next
    case root
    then have "normalizeSegments False res (x # xs) = normalizeSegments False res xs" by auto
    then show ?thesis using Cons.IH[OF Cons.prems(1) xs] by simp
  next
    case push
    then have n: "normalSegment x" using x by (simp add: normalSegment_def)
    then have ap: "\<forall>s\<in>set (res @ [x]). normalSegment s" using Cons.prems(1) by auto
    from push have "normalizeSegments False res (x # xs) = normalizeSegments False (res @ [x]) xs"
      by simp
    then show ?thesis using Cons.IH[OF ap xs] by simp
  qed
qed

lemma resolve_absolute_form:
  assumes "isAbsolute cwd"
  shows "\<exists>segs. (\<forall>s\<in>set segs. normalSegment s) \<and> resolve cwd [p] = CHR ''/'' # joinWith ''/'' segs"
proof -
  have "\<exists>path. resolveLoop [p, cwd] [] = (path, True)"
    using assms by (cases cwd; cases p) (auto simp: isAbsolute_def)
  then obtain path where rl: "resolveLoop [p, cwd] [] = (path, True)" by blast
  let ?segs = "normalizeSegments False [] (splitOn CHR ''/'' path)"
  have "\<forall>s\<in>set ?segs. normalSegment s"
    by (rule normalizeSegments_normal) (auto dest: splitOn_free)
  moreover have "resolve cwd [p] = CHR ''/'' # joinWith ''/'' ?segs"
    using rl by (simp add: resolve_def normalizeString_def)
  ultimately show ?thesis by blast
qed

lemma resolve_of_normal:
  assumes "\<forall>s\<in>set segs. normalSegment s"
  shows "resolve cwd [CHR ''/'' # joinWith ''/'' segs] = CHR ''/'' # joinWith ''/'' segs"
proof -
  let ?p = "CHR ''/'' # joinWith ''/'' segs"
  have rl: "resolveLoop (rev [?p] @ [cwd]) [] = (?p @ ''/'', True)" by simp
  have ns: "normalizeSegments False [] (splitOn CHR ''/'' (?p @ ''/'')) = segs"
  proof (cases "segs = []")
    case True
    then show ?thesis by simp
  next
    case False
    have fr: "\<forall>s\<in>set segs. CHR ''/'' \<notin> set s" using assms by (simp add: normalSegment_def)
    have "splitOn CHR ''/'' (joinWith ''/'' segs @ ''/'') = segs @ [[]]"
      by (rule splitOn_join[OF False fr])
    then have sp: "splitOn CHR ''/'' (?p @ ''/'') = [] # segs @ [[]]" by simp
    have ne: "filter (\<lambda>s. s \<noteq> []) segs = segs"
      by (rule filter_True) (use assms in \<open>auto simp: normalSegment_def\<close>)
    have "normalizeSegments False [] ([] # segs @ [[]]) = [] @ filter (\<lambda>s. s \<noteq> []) ([] # segs @ [[]])"
      by (rule normalizeSegments_keeps) (use assms in auto)
    also have "\<dots> = segs" using ne by simp
    finally show ?thesis unfolding sp .
  qed
  show ?thesis unfolding resolve_def normalizeString_def rl using ns by simp
qed

lemma resolve_idem:
  assumes "isAbsolute cwd"
  shows "resolve cwd [resolve cwd [p]] = resolve cwd [p]"
proof -
  from resolve_absolute_form[OF assms, of p]
  obtain segs where n: "\<forall>s\<in>set segs. normalSegment s"
    and e: "resolve cwd [p] = CHR ''/'' # joinWith ''/'' segs" by blast
  show ?thesis unfolding e by (rule resolve_of_normal[OF n])
qed

lemma resolve_under_cwd:
  assumes "isAbsolute cwd"
  shows "resolve cwd [cwd, p] = resolve cwd [p]"
proof -
  from assms obtain cs where c: "cwd = CHR ''/'' # cs" by (cases cwd) (auto simp: isAbsolute_def)
  have "resolveLoop (rev [cwd, p] @ [cwd]) [] = resolveLoop (rev [p] @ [cwd]) []"
    unfolding c by (cases p) auto
  then show ?thesis unfolding resolve_def by simp
qed

lemma valid_iff:
  "valid (validatePathWithinWorkspace cwd filePath rootDir) \<longleftrightarrow>
     replaceBackslashes (resolve cwd [filePath]) = replaceBackslashes (resolve cwd [rootDir]) \<or>
     startsWith (replaceBackslashes (resolve cwd [filePath]))
       (replaceBackslashes (resolve cwd [rootDir]) @ ''/'')"
  unfolding validatePathWithinWorkspace_def Let_def by auto

lemma resolve_samples:
  "resolve cwd [''/repo/../etc/passwd''] = ''/etc/passwd''"
  "resolve cwd [''/repo''] = ''/repo''"
  "resolve cwd [''/repo/src/a.ts''] = ''/repo/src/a.ts''"
  "resolve ''/home/user'' [''src/a.ts''] = ''/home/user/src/a.ts''"
  "resolve ''/repo'' [''src/a.ts''] = ''/repo/src/a.ts''"
  "resolve cwd [''/repo'', ''src/a.ts''] = ''/repo/src/a.ts''"
  by (simp_all add: resolve_def normalizeString_def)

lemma valid_samples:
  "\<not> valid (validatePathWithinWorkspace cwd ''/repo/../etc/passwd'' ''/repo'')"
  "valid (validatePathWithinWorkspace cwd ''/repo/src/a.ts'' ''/repo'')"
  "\<not> valid (validatePathWithinWorkspace ''/home/user'' ''src/a.ts'' ''/repo'')"
  "valid (validatePathWithinWorkspace ''/repo'' ''src/a.ts'' ''/repo'')"
  by (simp_all add: valid_iff resolve_samples replaceBackslashes_def startsWith_def)

lemma splitOn_append_sep: "splitOn c (s @ c # u) = splitOn c s @ splitOn c u"
proof (induction s)
  case Nil
  then show ?case by simp
next
  case (Cons x s)
  show ?case
  proof (cases "x = c")
    case True
    with Cons show ?thesis by simp
  next
    case False
    have "hd (splitOn c s @ splitOn c u) = hd (splitOn c s)"
      "tl (splitOn c s @ splitOn c u) = tl (splitOn c s) @ splitOn c u"
      using splitOn_nonempty[of c s] by simp_all
    with False Cons show ?thesis by simp
  qed
qed

lemma splitOn_joinWith:
  assumes "segs \<noteq> []" "\<forall>s\<in>set segs. c \<notin> set s"
  shows "splitOn c (joinWith [c] segs) = segs"
proof -
  have "splitOn c (joinWith [c] segs @ [c]) = splitOn c (joinWith [c] segs) @ [[]]"
    using splitOn_append_sep[of c "joinWith [c] segs" "[]"] by simp
  with splitOn_join[OF assms] show ?thesis by simp
qed

lemma joinWith_append:
  "xs \<noteq> [] \<Longrightarrow> ys \<noteq> [] \<Longrightarrow> joinWith sep (xs @ ys) = joinWith sep xs @ sep @ joinWith sep ys"
proof (induction xs)
  case Nil
  then show ?case by simp
next
  case (Cons x xs)
  show ?case
  proof (cases xs)
    case Nil
    with Cons.prems show ?thesis by (cases ys) simp_all
  next
    case (Cons v vs)
    with Cons.IH Cons.prems show ?thesis by simp
  qed
qed

lemma joinWith_Nil_iff:
  assumes "\<forall>s\<in>set segs. s \<noteq> []"
  shows "joinWith sep segs = [] \<longleftrightarrow> segs = []"
proof (cases segs)
  case Nil
  then show ?thesis by simp
next
  case (Cons x xs)
  with assms have "x \<noteq> []" by simp
  with Cons show ?thesis by (cases xs) simp_all
qed

lemma joinWith_inject:
  assumes "\<forall>s\<in>set xs. normalSegment s" "\<forall>s\<in>set ys. normalSegment s"
    and "joinWith ''/'' xs = joinWith ''/'' ys"
  shows "xs = ys"
proof -
  have nx: "\<forall>s\<in>set xs. s \<noteq> []" and ny: "\<forall>s\<in>set ys. s \<noteq> []"
    using assms(1,2) by (simp_all add: normalSegment_def)
  have fx: "\<forall>s\<in>set xs. CHR ''/'' \<notin> set s" and fy: "\<forall>s\<in>set ys. CHR ''/'' \<notin> set s"
    using assms(1,2) by (simp_all add: normalSegment_def)
  show ?thesis
  proof (cases "xs = []")
    case True
    then have "joinWith ''/'' ys = []" using assms(3) by simp
    then have "ys = []" by (simp only: joinWith_Nil_iff[OF ny])
    with True show ?thesis by simp
  next
    case False
    note xne = this
    show ?thesis
    proof (cases "ys = []")
      case True
      then have "joinWith ''/'' xs = []" using assms(3) by simp
      then have "xs = []" by (simp only: joinWith_Nil_iff[OF nx])
      with xne show ?thesis by simp
    next
      case False
      have "xs = splitOn CHR ''/'' (joinWith ''/'' xs)"
        by (rule splitOn_joinWith[OF xne fx, symmetric])
      also have "\<dots> = splitOn CHR ''/'' (joinWith ''/'' ys)" by (simp only: assms(3))
      also have "\<dots> = ys" by (rule splitOn_joinWith[OF False fy])
      finally show ?thesis .
    qed
  qed
qed

lemma startsWith_iff: "startsWith s p \<longleftrightarrow> (\<exists>u. s = p @ u)"
proof
  assume "startsWith s p"
  then have "take (length p) s = p" by (simp add: startsWith_def)
  moreover have "s = take (length p) s @ drop (length p) s" by simp
  ultimately have "s = p @ drop (length p) s" by simp
  then show "\<exists>u. s = p @ u" by blast
next
  assume "\<exists>u. s = p @ u"
  then show "startsWith s p" by (auto simp: startsWith_def)
qed

lemma under_root_iff:
  assumes "\<forall>s\<in>set rs. normalSegment s" "\<forall>s\<in>set ps. normalSegment s"
  shows "startsWith (joinWith ''/'' ps) (joinWith ''/'' rs @ ''/'') \<longleftrightarrow>
         rs \<noteq> [] \<and> take (length rs) ps = rs \<and> ps \<noteq> rs"
proof
  assume "startsWith (joinWith ''/'' ps) (joinWith ''/'' rs @ ''/'')"
  then obtain u where u: "joinWith ''/'' ps = joinWith ''/'' rs @ CHR ''/'' # u"
    by (auto simp: startsWith_iff)
  have fp: "\<forall>s\<in>set ps. CHR ''/'' \<notin> set s" and fr: "\<forall>s\<in>set rs. CHR ''/'' \<notin> set s"
    using assms by (auto simp: normalSegment_def)
  from u have pne: "ps \<noteq> []" by auto
  have sp: "ps = splitOn CHR ''/'' (joinWith ''/'' rs) @ splitOn CHR ''/'' u"
    using splitOn_joinWith[OF pne fp] u splitOn_append_sep[of "CHR ''/''" "joinWith ''/'' rs" u]
    by simp
  have rne: "rs \<noteq> []"
  proof
    assume "rs = []"
    with sp have "[] \<in> set ps" by simp
    with assms(2) show False by (auto simp: normalSegment_def)
  qed
  from sp splitOn_joinWith[OF rne fr] have e: "ps = rs @ splitOn CHR ''/'' u" by simp
  have "splitOn CHR ''/'' u \<noteq> []" by (rule splitOn_nonempty)
  with e have "take (length rs) ps = rs" "ps \<noteq> rs" by auto
  with rne show "rs \<noteq> [] \<and> take (length rs) ps = rs \<and> ps \<noteq> rs" by simp
next
  assume a: "rs \<noteq> [] \<and> take (length rs) ps = rs \<and> ps \<noteq> rs"
  have "ps = take (length rs) ps @ drop (length rs) ps" by simp
  with a have e: "ps = rs @ drop (length rs) ps" by simp
  with a have dne: "drop (length rs) ps \<noteq> []" by auto
  from a have rne: "rs \<noteq> []" by simp
  have "joinWith ''/'' ps = joinWith ''/'' (rs @ drop (length rs) ps)" using e by simp
  also have "\<dots> = joinWith ''/'' rs @ ''/'' @ joinWith ''/'' (drop (length rs) ps)"
    by (rule joinWith_append[OF rne dne])
  finally show "startsWith (joinWith ''/'' ps) (joinWith ''/'' rs @ ''/'')"
    by (auto simp: startsWith_iff)
qed

lemma resolve_segments:
  assumes "isAbsolute cwd"
  shows "resolve cwd [p] = CHR ''/'' # joinWith ''/'' (pathSegments cwd p)"
    and "\<forall>s\<in>set (pathSegments cwd p). normalSegment s"
proof -
  have "\<exists>path. resolveLoop [p, cwd] [] = (path, True)"
    using assms by (cases cwd; cases p) (auto simp: isAbsolute_def)
  then obtain path where rl: "resolveLoop [p, cwd] [] = (path, True)" by blast
  then show "resolve cwd [p] = CHR ''/'' # joinWith ''/'' (pathSegments cwd p)"
    by (simp add: resolve_def normalizeString_def pathSegments_def)
  show "\<forall>s\<in>set (pathSegments cwd p). normalSegment s"
    unfolding pathSegments_def
    by (rule normalizeSegments_normal) (auto dest: splitOn_free)
qed

lemma replaceBackslashes_id: "CHR 0x5C \<notin> set s \<Longrightarrow> replaceBackslashes s = s"
  unfolding replaceBackslashes_def by (induction s) auto

lemma valid_iff_segments:
  assumes "isAbsolute cwd"
    and "CHR 0x5C \<notin> set (resolve cwd [filePath])" "CHR 0x5C \<notin> set (resolve cwd [rootDir])"
  shows "valid (validatePathWithinWorkspace cwd filePath rootDir) \<longleftrightarrow>
           (pathSegments cwd rootDir = [] \<and> pathSegments cwd filePath = []) \<or>
           (pathSegments cwd rootDir \<noteq> [] \<and>
            take (length (pathSegments cwd rootDir)) (pathSegments cwd filePath) = pathSegments cwd rootDir)"
proof -
  let ?ps = "pathSegments cwd filePath" and ?rs = "pathSegments cwd rootDir"
  note np = resolve_segments(2)[OF assms(1), of filePath]
  note nr = resolve_segments(2)[OF assms(1), of rootDir]
  have c1: "replaceBackslashes (resolve cwd [filePath]) = CHR ''/'' # joinWith ''/'' ?ps"
    using replaceBackslashes_id[OF assms(2)] resolve_segments(1)[OF assms(1), of filePath] by simp
  have c2: "replaceBackslashes (resolve cwd [rootDir]) = CHR ''/'' # joinWith ''/'' ?rs"
    using replaceBackslashes_id[OF assms(3)] resolve_segments(1)[OF assms(1), of rootDir] by simp
  have v: "valid (validatePathWithinWorkspace cwd filePath rootDir) \<longleftrightarrow>
        joinWith ''/'' ?ps = joinWith ''/'' ?rs \<or>
        startsWith (joinWith ''/'' ?ps) (joinWith ''/'' ?rs @ ''/'')"
    unfolding validatePathWithinWorkspace_def Let_def c1 c2
    by (auto simp: startsWith_def)
  have eq: "joinWith ''/'' ?ps = joinWith ''/'' ?rs \<longleftrightarrow> ?ps = ?rs"
    using joinWith_inject[OF np nr] by auto
  show ?thesis
    unfolding v eq under_root_iff[OF nr np]
    by (cases "?rs = []") auto
qed

lemma splitOn_chars: "s \<in> set (splitOn c xs) \<Longrightarrow> set s \<subseteq> set xs"
proof (induction xs arbitrary: s)
  case Nil
  then show ?case by simp
next
  case (Cons x xs)
  have hd_in: "hd (splitOn c xs) \<in> set (splitOn c xs)" using splitOn_nonempty by simp
  have tl_in: "\<And>t. t \<in> set (tl (splitOn c xs)) \<Longrightarrow> t \<in> set (splitOn c xs)"
    by (rule list.set_sel(2)[OF splitOn_nonempty])
  show ?case
  proof (cases "x = c")
    case True
    with Cons.prems have "s = [] \<or> s \<in> set (splitOn c xs)" by simp
    with Cons.IH show ?thesis by auto
  next
    case False
    with Cons.prems have "s = x # hd (splitOn c xs) \<or> s \<in> set (tl (splitOn c xs))" by simp
    then show ?thesis
    proof
      assume "s = x # hd (splitOn c xs)"
      with Cons.IH[OF hd_in] show ?thesis by auto
    next
      assume "s \<in> set (tl (splitOn c xs))"
      from Cons.IH[OF tl_in[OF this]] show ?thesis by auto
    qed
  qed
qed

lemma normalizeSegments_subset:
  "set (normalizeSegments False res xs) \<subseteq> set res \<union> set xs"
proof (induction xs arbitrary: res)
  case Nil
  then show ?case by simp
next
  case (Cons x xs)
  have bl: "set (butlast res) \<subseteq> set res" by (auto dest: in_set_butlastD)
  from Cons.IH[of res] Cons.IH[of "butlast res"] Cons.IH[of "res @ [x]"] bl
  show ?case by (simp only: normalizeSegments.simps split: if_splits) auto
qed

lemma joinWith_chars: "set (joinWith sep segs) \<subseteq> set sep \<union> (\<Union>s\<in>set segs. set s)"
  by (induction sep segs rule: joinWith.induct) auto

lemma resolveLoop_chars:
  "set (fst (resolveLoop ps acc)) \<subseteq> insert CHR ''/'' (set acc \<union> (\<Union>p\<in>set ps. set p))"
  by (induction ps acc rule: resolveLoop.induct) auto

lemma resolve_chars:
  assumes "isAbsolute cwd"
  shows "set (resolve cwd [p]) \<subseteq> insert CHR ''/'' (set p \<union> set cwd)"
proof -
  define path where "path = fst (resolveLoop [p, cwd] [])"
  have a: "set path \<subseteq> insert CHR ''/'' (set p \<union> set cwd)"
    unfolding path_def using resolveLoop_chars[of "[p, cwd]" "[]"]
    by (simp del: resolveLoop.simps)
  have sub: "set (normalizeSegments False [] xs) \<subseteq> set xs" for xs
    using normalizeSegments_subset[of "[]" xs] by simp
  have seg: "pathSegments cwd p = normalizeSegments False [] (splitOn CHR ''/'' path)"
    unfolding pathSegments_def path_def by (rule refl)
  have b: "set s \<subseteq> set path" if "s \<in> set (pathSegments cwd p)" for s
  proof -
    from that sub[of "splitOn CHR ''/'' path"] have "s \<in> set (splitOn CHR ''/'' path)"
      unfolding seg by blast
    then show ?thesis by (rule splitOn_chars)
  qed
  have "set (joinWith ''/'' (pathSegments cwd p)) \<subseteq> insert CHR ''/'' (set path)"
    using joinWith_chars[of "''/''" "pathSegments cwd p"] b by auto
  with a have "set (CHR ''/'' # joinWith ''/'' (pathSegments cwd p)) \<subseteq>
      insert CHR ''/'' (set p \<union> set cwd)" by auto
  then show ?thesis unfolding resolve_segments(1)[OF assms] .
qed

text \<open>
  On paths written without a backslash the validator and the specification's check agree:
  the two differ only in the order of the two steps, and \<^verbatim>\<open>replace\<close> then changes
  nothing.
\<close>

lemma validate_agrees_without_backslash:
  assumes "isAbsolute cwd" "CHR 0x5C \<notin> set cwd"
    and "CHR 0x5C \<notin> set filePath" "CHR 0x5C \<notin> set rootDir"
  shows "valid (validatePathWithinWorkspace cwd filePath rootDir) \<longleftrightarrow>
         specWithinWorkspace cwd filePath rootDir"
proof -
  have f: "CHR 0x5C \<notin> set (resolve cwd [filePath])"
    using resolve_chars[OF assms(1), of filePath] assms(2,3) by auto
  have r: "CHR 0x5C \<notin> set (resolve cwd [rootDir])"
    using resolve_chars[OF assms(1), of rootDir] assms(2,4) by auto
  show ?thesis
    unfolding valid_iff specWithinWorkspace_def specCanonical_def
      replaceBackslashes_id[OF f] replaceBackslashes_id[OF r]
      replaceBackslashes_id[OF assms(3)] replaceBackslashes_id[OF assms(4)]
    by (rule refl)
qed

lemma escaping_resolve:
  "resolve cwd [escapingPath] = escapingPath"
  "resolve cwd [replaceBackslashes escapingPath] = ''/etc/passwd''"
  "resolve ''/repo'' [''/repo'', siblingPath] = ''/repo'' @ [CHR 0x5C] @ ''secret.txt''"
  by (simp_all add: resolve_def normalizeString_def escapingPath_def siblingPath_def
        replaceBackslashes_def splitOn_step(2) del: splitOn.simps(2))

text \<open>
  Claim C1, the defect. On a POSIX platform \<^verbatim>\<open>resolve\<close> reads a backslash as an
  ordinary character, and the validator replaces the backslashes by separators only after
  it has resolved the path, so a traversal written with backslashes is never resolved. The
  candidate \<^verbatim>\<open>/repo\..\etc\passwd\<close> resolves to itself, one segment directly
  under \<^verbatim>\<open>/\<close>, and is judged valid against the root \<^verbatim>\<open>/repo\<close>, although
  its canonical form \<^verbatim>\<open>/etc/passwd\<close> is neither the root nor under it. Through the
  file reader of the workspace \<^verbatim>\<open>/repo\<close>, the path
  \<^verbatim>\<open>../repo\secret.txt\<close> passes the validator and the file
  \<^verbatim>\<open>/repo\secret.txt\<close>, which lies in \<^verbatim>\<open>/\<close>, is read.
\<close>

theorem validate_accepts_backslash_traversal:
  "resolve cwd [escapingPath] = escapingPath \<and>
   pathSegments cwd escapingPath = [tl escapingPath] \<and>
   valid (validatePathWithinWorkspace cwd escapingPath ''/repo'') \<and>
   specCanonical cwd escapingPath = ''/etc/passwd'' \<and>
   \<not> specWithinWorkspace cwd escapingPath ''/repo'' \<and>
   valid (validatePathWithinWorkspace ''/repo'' (resolve ''/repo'' [''/repo'', siblingPath]) ''/repo'') \<and>
   fst (ReadFileTool_execute sampleConfig sampleEnv neverAborted [(''file_path'', JStr siblingPath)]) =
     [ReadFileCall (''/repo'' @ [CHR 0x5C] @ ''secret.txt'') ''utf-8'']"
proof -
  have a: "pathSegments cwd escapingPath = [tl escapingPath]"
    by (simp add: pathSegments_def escapingPath_def splitOn_step(2) del: splitOn.simps(2))
  have b: "valid (validatePathWithinWorkspace cwd escapingPath ''/repo'')"
    unfolding valid_iff escaping_resolve resolve_samples
    by (simp add: escapingPath_def replaceBackslashes_def startsWith_def)
  have c: "\<not> specWithinWorkspace cwd escapingPath ''/repo''"
    unfolding specWithinWorkspace_def specCanonical_def escaping_resolve
    by (simp add: replaceBackslashes_def resolve_samples startsWith_def)
  have d: "valid (validatePathWithinWorkspace ''/repo'' (resolve ''/repo'' [''/repo'', siblingPath]) ''/repo'')"
    unfolding escaping_resolve
    by (simp add: valid_iff resolve_def normalizeString_def replaceBackslashes_def startsWith_def
          splitOn_step(2) del: splitOn.simps(2))
  have e: "fst (ReadFileTool_execute sampleConfig sampleEnv neverAborted [(''file_path'', JStr siblingPath)]) =
     [ReadFileCall (''/repo'' @ [CHR 0x5C] @ ''secret.txt'') ''utf-8'']"
    by code_simp
  show ?thesis using a b c d e by (simp add: escaping_resolve specCanonical_def)
qed

text \<open>
  Claim C8, as amended. The validator resolves a relative candidate against the current
  working directory of the process, not against the workspace root. For an absolute working
  directory, the verdict for a candidate equals the verdict for the absolute path that
  \<^verbatim>\<open>resolve\<close> gives it under the working directory; and when the workspace root is the
  working directory, it equals the verdict for the candidate resolved under that root.
\<close>

theorem validate_relative_against_cwd:
  "isAbsolute cwd \<Longrightarrow>
   valid (validatePathWithinWorkspace cwd filePath rootDir) =
     valid (validatePathWithinWorkspace cwd (resolve cwd [filePath]) rootDir) \<and>
   valid (validatePathWithinWorkspace cwd filePath cwd) =
     valid (validatePathWithinWorkspace cwd (resolve cwd [cwd, filePath]) cwd)"
  by (simp add: valid_iff resolve_idem resolve_under_cwd)

text \<open>
  The amended claim C8 at the working directory and root \<^verbatim>\<open>/repo\<close> and the relative
  candidate \<^verbatim>\<open>src/a.ts\<close>.
\<close>

theorem validate_relative_against_cwd_witness:
  "isAbsolute ''/repo'' \<and>
   resolve ''/repo'' [''/repo'', ''src/a.ts''] = ''/repo/src/a.ts'' \<and>
   valid (validatePathWithinWorkspace ''/repo'' ''src/a.ts'' ''/repo'') =
     valid (validatePathWithinWorkspace ''/repo'' ''/repo/src/a.ts'' ''/repo'')"
proof -
  have h: "isAbsolute ''/repo''" by (simp add: isAbsolute_def)
  have r: "resolve ''/repo'' [''/repo'', ''src/a.ts''] = ''/repo/src/a.ts''"
    by (rule resolve_samples)
  from validate_relative_against_cwd[OF h, of "''src/a.ts''" "''/repo''"]
  have "valid (validatePathWithinWorkspace ''/repo'' ''src/a.ts'' ''/repo'') =
     valid (validatePathWithinWorkspace ''/repo'' (resolve ''/repo'' [''/repo'', ''src/a.ts'']) ''/repo'')"
    by (rule conjunct2)
  then show ?thesis unfolding r using h r by blast
qed

text \<open>
  Claim C8 as stated fails: with the working directory \<^verbatim>\<open>/home/user\<close> and the root
  \<^verbatim>\<open>/repo\<close>, the relative candidate \<^verbatim>\<open>src/a.ts\<close> is invalid although the
  corresponding absolute candidate under the root, \<^verbatim>\<open>/repo/src/a.ts\<close>, is valid.
\<close>

theorem validate_relative_counterexample:
  "resolve ''/home/user'' [''/repo'', ''src/a.ts''] = ''/repo/src/a.ts'' \<and>
   valid (validatePathWithinWorkspace ''/home/user'' ''/repo/src/a.ts'' ''/repo'') \<and>
   \<not> valid (validatePathWithinWorkspace ''/home/user'' ''src/a.ts'' ''/repo'')"
  using resolve_samples(6)[of "''/home/user''"] valid_samples(2)[of "''/home/user''"] valid_samples(3)
  by blast

section \<open>Properties of the turn engine\<close>

lemma set_foldl_setAdd: "set (foldl setAdd xs ys) = set xs \<union> set ys"
  by (induction ys arbitrary: xs) (auto simp: setAdd_def)

lemma distinct_foldl_setAdd: "distinct xs \<Longrightarrow> distinct (foldl setAdd xs ys)"
  by (induction ys arbitrary: xs) (auto simp: setAdd_def)

lemma handleFunctionCalls_frame:
  "handleFunctionCalls stamp pid st calls = (es, st') \<Longrightarrow>
     list_all (\<lambda>e. \<not> isTerminal e \<and> \<not> isCitation e) es \<and>
     pendingCitations st' = pendingCitations st"
proof (induction calls arbitrary: st es st')
  case Nil
  then show ?case by simp
next
  case (Cons c cs)
  obtain ev st1 where h: "handlePendingFunctionCall stamp pid st c = (ev, st1)"
    by (cases "handlePendingFunctionCall stamp pid st c") auto
  obtain evs st2 where r: "handleFunctionCalls stamp pid st1 cs = (evs, st2)"
    by (cases "handleFunctionCalls stamp pid st1 cs") auto
  from h have ev: "\<not> isTerminal ev \<and> \<not> isCitation ev" and s1: "pendingCitations st1 = pendingCitations st"
    by (auto simp: handlePendingFunctionCall_def Let_def)
  from Cons.prems h r have "es = ev # evs" "st' = st2" by auto
  with Cons.IH[OF r] ev s1 show ?case by simp
qed

lemma finishStep_quiet:
  "\<not> truthy (chunkFinishReason resp) \<Longrightarrow> fst (finishStep st resp) = []"
  by (simp add: finishStep_def Let_def)

lemma finishStep_quiet_state:
  "\<not> truthy (chunkFinishReason resp) \<Longrightarrow>
   pendingCitations (snd (finishStep st resp)) =
     foldl setAdd (pendingCitations st) (getCitations resp)"
  by (simp add: finishStep_def Let_def)

lemma finishStep_finish:
  "truthy (chunkFinishReason resp) \<Longrightarrow>
   fst (finishStep st resp) =
     (if foldl setAdd (pendingCitations st) (getCitations resp) \<noteq> []
      then [Citation (''Citations:'' @ [CHR 0x0A] @
              joinWith [CHR 0x0A] (sort (foldl setAdd (pendingCitations st) (getCitations resp))))]
      else []) @ [Finished (chunkFinishReason resp) (usageMetadata resp)] \<and>
   pendingCitations (snd (finishStep st resp)) = []"
  by (simp add: finishStep_def Let_def)



lemma processChunk_thought:
  "isThoughtChunk resp \<Longrightarrow>
   processChunk stamp pid st resp =
     ([Thought (parseThought (thoughtPartText resp))],
      st\<lparr>debugResponses := debugResponses st @ [resp]\<rparr>, None)"
  by (simp add: processChunk_def Let_def)

lemma processChunk_throw:
  "\<not> isThoughtChunk resp \<Longrightarrow> functionCalls resp = Some (Inl e) \<Longrightarrow>
   processChunk stamp pid st resp =
     ((case getResponseText resp of None \<Rightarrow> [] | Some t \<Rightarrow> [Content t]),
      st\<lparr>debugResponses := debugResponses st @ [resp]\<rparr>, Some e)"
  by (simp add: processChunk_def Let_def)

lemma processChunk_normal:
  assumes "\<not> isThoughtChunk resp" "\<not> callsThrow resp"
  shows "processChunk stamp pid st resp =
     ((case getResponseText resp of None \<Rightarrow> [] | Some t \<Rightarrow> [Content t]) @
        fst (handleFunctionCalls stamp pid (st\<lparr>debugResponses := debugResponses st @ [resp]\<rparr>) (chunkCalls resp)) @
        fst (finishStep (snd (handleFunctionCalls stamp pid (st\<lparr>debugResponses := debugResponses st @ [resp]\<rparr>) (chunkCalls resp))) resp),
      snd (finishStep (snd (handleFunctionCalls stamp pid (st\<lparr>debugResponses := debugResponses st @ [resp]\<rparr>) (chunkCalls resp))) resp),
      None)"
  using assms
  by (auto simp: processChunk_def Let_def callsThrow_def chunkCalls_def
           split: option.splits sum.splits prod.splits)

lemma content_events_plain:
  "list_all (\<lambda>e. \<not> isTerminal e \<and> \<not> isCitation e)
     (case getResponseText resp of None \<Rightarrow> [] | Some t \<Rightarrow> [Content t])"
  by (simp split: option.splits)


lemma catchEvent_abortive: "isAbortive (catchEvent b e)"
  by (simp add: catchEvent_def)


lemma processChunk_quiet:
  assumes "\<not> truthy (chunkFinishReason resp)" "\<not> callsThrow resp"
  shows "\<exists>es st1. processChunk stamp pid st resp = (es, st1, None) \<and>
           list_all (\<lambda>e. \<not> isTerminal e \<and> \<not> isCitation e) es \<and>
           pendingCitations st1 =
             foldl setAdd (pendingCitations st) (itemCitations (ChunkEvent (Some resp)))"
proof (cases "isThoughtChunk resp")
  case True
  then show ?thesis by (simp add: processChunk_thought)
next
  case False
  let ?st = "st\<lparr>debugResponses := debugResponses st @ [resp]\<rparr>"
  obtain ces st1 where h: "handleFunctionCalls stamp pid ?st (chunkCalls resp) = (ces, st1)"
    by (cases "handleFunctionCalls stamp pid ?st (chunkCalls resp)") auto
  from handleFunctionCalls_frame[OF h]
  have c: "list_all (\<lambda>e. \<not> isTerminal e \<and> \<not> isCitation e) ces"
    and pc: "pendingCitations st1 = pendingCitations st" by auto
  have p: "processChunk stamp pid st resp =
             ((case getResponseText resp of None \<Rightarrow> [] | Some t \<Rightarrow> [Content t]) @ ces,
              snd (finishStep st1 resp), None)"
    using h processChunk_normal[OF False assms(2), of stamp pid st] finishStep_quiet[OF assms(1), of st1]
    by simp
  have q: "list_all (\<lambda>e. \<not> isTerminal e \<and> \<not> isCitation e)
             ((case getResponseText resp of None \<Rightarrow> [] | Some t \<Rightarrow> [Content t]) @ ces)"
    using c content_events_plain[of resp] by simp
  have r: "pendingCitations (snd (finishStep st1 resp)) =
             foldl setAdd (pendingCitations st) (itemCitations (ChunkEvent (Some resp)))"
    using finishStep_quiet_state[OF assms(1), of st1] pc False by simp
  from p q r show ?thesis by blast
qed

lemma processChunk_finishing:
  assumes "\<not> isThoughtChunk resp" "\<not> callsThrow resp" "truthy (chunkFinishReason resp)"
  shows "\<exists>pre st'. processChunk stamp pid st resp =
            (pre @
             (if foldl setAdd (pendingCitations st) (getCitations resp) = [] then []
              else [Citation (''Citations:'' @ [CHR 0x0A] @
                      joinWith [CHR 0x0A] (sort (foldl setAdd (pendingCitations st) (getCitations resp))))]) @
             [Finished (chunkFinishReason resp) (usageMetadata resp)], st', None) \<and>
           list_all (\<lambda>e. \<not> isTerminal e \<and> \<not> isCitation e) pre \<and>
           pendingCitations st' = []"
proof -
  let ?st = "st\<lparr>debugResponses := debugResponses st @ [resp]\<rparr>"
  obtain ces st1 where h: "handleFunctionCalls stamp pid ?st (chunkCalls resp) = (ces, st1)"
    by (cases "handleFunctionCalls stamp pid ?st (chunkCalls resp)") auto
  from handleFunctionCalls_frame[OF h]
  have c: "list_all (\<lambda>e. \<not> isTerminal e \<and> \<not> isCitation e) ces"
    and pc: "pendingCitations st1 = pendingCitations st" by auto
  let ?pre = "(case getResponseText resp of None \<Rightarrow> [] | Some t \<Rightarrow> [Content t]) @ ces"
  have "list_all (\<lambda>e. \<not> isTerminal e \<and> \<not> isCitation e) ?pre"
    using c content_events_plain[of resp] by simp
  moreover have "processChunk stamp pid st resp =
            (?pre @
             (if foldl setAdd (pendingCitations st) (getCitations resp) = [] then []
              else [Citation (''Citations:'' @ [CHR 0x0A] @
                      joinWith [CHR 0x0A] (sort (foldl setAdd (pendingCitations st) (getCitations resp))))]) @
             [Finished (chunkFinishReason resp) (usageMetadata resp)], snd (finishStep st1 resp), None)"
    using h processChunk_normal[OF assms(1,2), of stamp pid st] finishStep_finish[OF assms(3), of st1] pc
    by simp
  moreover have "pendingCitations (snd (finishStep st1 resp)) = []"
    using finishStep_finish[OF assms(3), of st1] by simp
  ultimately show ?thesis by blast
qed

lemma runLoop_quiet_prefix:
  assumes "list_all quietItem pre" "\<forall>j<length pre. \<not> sig (k + j)"
  shows "\<exists>es0 st1. list_all (\<lambda>e. \<not> isTerminal e \<and> \<not> isCitation e) es0 \<and>
           pendingCitations st1 =
             foldl setAdd (pendingCitations st) (concat (map itemCitations pre)) \<and>
           runLoop sig stamp pid k st (pre @ rest) fin =
             (es0 @ fst (runLoop sig stamp pid (k + length pre) st1 rest fin),
              snd (runLoop sig stamp pid (k + length pre) st1 rest fin))"
  using assms
proof (induction pre arbitrary: k st)
  case Nil
  show ?case by (rule exI[of _ "[]"], rule exI[of _ st]) simp
next
  case (Cons ev pre)
  from Cons.prems(2) have nk: "\<not> sig k" by force
  from Cons.prems(2) have later: "\<forall>j<length pre. \<not> sig (Suc k + j)" by force
  from Cons.prems(1) have q: "quietItem ev" and qs: "list_all quietItem pre" by auto
  show ?case
  proof (cases ev rule: quietItem.cases)
    case (1 resp)
    with q have "\<not> truthy (chunkFinishReason resp)" "\<not> callsThrow resp" by auto
    from processChunk_quiet[OF this, of stamp pid st]
    obtain es st1 where p: "processChunk stamp pid st resp = (es, st1, None)"
      and ne: "list_all (\<lambda>e. \<not> isTerminal e \<and> \<not> isCitation e) es"
      and c1: "pendingCitations st1 =
                 foldl setAdd (pendingCitations st) (itemCitations (ChunkEvent (Some resp)))"
      by blast
    from Cons.IH[OF qs later, of st1]
    obtain es0 st2 where t: "list_all (\<lambda>e. \<not> isTerminal e \<and> \<not> isCitation e) es0"
      and c2: "pendingCitations st2 =
                 foldl setAdd (pendingCitations st1) (concat (map itemCitations pre))"
      and r: "runLoop sig stamp pid (Suc k) st1 (pre @ rest) fin =
             (es0 @ fst (runLoop sig stamp pid (Suc k + length pre) st2 rest fin),
              snd (runLoop sig stamp pid (Suc k + length pre) st2 rest fin))" by blast
    have c: "pendingCitations st2 =
               foldl setAdd (pendingCitations st) (concat (map itemCitations (ev # pre)))"
      unfolding c2 c1 1 by simp
    have l: "list_all (\<lambda>e. \<not> isTerminal e \<and> \<not> isCitation e) (es @ es0)"
      using ne t by simp
    have "runLoop sig stamp pid k st ((ev # pre) @ rest) fin =
             ((es @ es0) @ fst (runLoop sig stamp pid (k + length (ev # pre)) st2 rest fin),
              snd (runLoop sig stamp pid (k + length (ev # pre)) st2 rest fin))"
      using 1 nk p r by simp
    with l c show ?thesis by blast
  next
    case "2_1"
    from Cons.IH[OF qs later, of st]
    obtain es0 st2 where t: "list_all (\<lambda>e. \<not> isTerminal e \<and> \<not> isCitation e) es0"
      and c2: "pendingCitations st2 =
                 foldl setAdd (pendingCitations st) (concat (map itemCitations pre))"
      and r: "runLoop sig stamp pid (Suc k) st (pre @ rest) fin =
             (es0 @ fst (runLoop sig stamp pid (Suc k + length pre) st2 rest fin),
              snd (runLoop sig stamp pid (Suc k + length pre) st2 rest fin))" by blast
    have c: "pendingCitations st2 =
               foldl setAdd (pendingCitations st) (concat (map itemCitations (ev # pre)))"
      unfolding c2 "2_1" by simp
    have l: "list_all (\<lambda>e. \<not> isTerminal e \<and> \<not> isCitation e) (Retry # es0)"
      using t by simp
    have "runLoop sig stamp pid k st ((ev # pre) @ rest) fin =
             ((Retry # es0) @ fst (runLoop sig stamp pid (k + length (ev # pre)) st2 rest fin),
              snd (runLoop sig stamp pid (k + length (ev # pre)) st2 rest fin))"
      using "2_1" nk r by simp
    with l c show ?thesis by blast
  next
    case "2_2"
    from Cons.IH[OF qs later, of st]
    obtain es0 st2 where t: "list_all (\<lambda>e. \<not> isTerminal e \<and> \<not> isCitation e) es0"
      and c2: "pendingCitations st2 =
                 foldl setAdd (pendingCitations st) (concat (map itemCitations pre))"
      and r: "runLoop sig stamp pid (Suc k) st (pre @ rest) fin =
             (es0 @ fst (runLoop sig stamp pid (Suc k + length pre) st2 rest fin),
              snd (runLoop sig stamp pid (Suc k + length pre) st2 rest fin))" by blast
    have c: "pendingCitations st2 =
               foldl setAdd (pendingCitations st) (concat (map itemCitations (ev # pre)))"
      unfolding c2 "2_2" by simp
    have "runLoop sig stamp pid k st ((ev # pre) @ rest) fin =
             (es0 @ fst (runLoop sig stamp pid (k + length (ev # pre)) st2 rest fin),
              snd (runLoop sig stamp pid (k + length (ev # pre)) st2 rest fin))"
      using "2_2" nk r by simp
    with t c show ?thesis by blast
  qed
qed

lemma filter_none: "list_all (\<lambda>e. \<not> P e) xs \<Longrightarrow> filter P xs = []"
  by (induction xs) auto

lemma runLoop_finish_after_quiet:
  assumes "list_all quietItem pre" "\<forall>k\<le>length pre. \<not> sig k"
    "\<not> isThoughtChunk resp" "\<not> callsThrow resp" "truthy (chunkFinishReason resp)"
  shows "\<exists>es0 st'. list_all (\<lambda>e. \<not> isTerminal e \<and> \<not> isCitation e) es0 \<and>
           pendingCitations st' = [] \<and>
           fst (runLoop sig stamp pid 0 st (pre @ ChunkEvent (Some resp) # rest) fin) =
             es0 @
             (if foldl setAdd (pendingCitations st)
                   (concat (map itemCitations pre) @ getCitations resp) = [] then []
              else [Citation (''Citations:'' @ [CHR 0x0A] @
                      joinWith [CHR 0x0A]
                        (sort (foldl setAdd (pendingCitations st)
                                 (concat (map itemCitations pre) @ getCitations resp))))]) @
             Finished (chunkFinishReason resp) (usageMetadata resp) #
             fst (runLoop sig stamp pid (Suc (length pre)) st' rest fin)"
proof -
  from assms(2) have a: "\<forall>j<length pre. \<not> sig (0 + j)" and b: "\<not> sig (length pre)" by auto
  from runLoop_quiet_prefix[OF assms(1) a, of st stamp pid "ChunkEvent (Some resp) # rest" fin]
  obtain es0 st1 where t: "list_all (\<lambda>e. \<not> isTerminal e \<and> \<not> isCitation e) es0"
    and c: "pendingCitations st1 =
              foldl setAdd (pendingCitations st) (concat (map itemCitations pre))"
    and r: "fst (runLoop sig stamp pid 0 st (pre @ ChunkEvent (Some resp) # rest) fin) =
             es0 @ fst (runLoop sig stamp pid (length pre) st1 (ChunkEvent (Some resp) # rest) fin)"
    by auto
  have all: "foldl setAdd (pendingCitations st1) (getCitations resp) =
             foldl setAdd (pendingCitations st) (concat (map itemCitations pre) @ getCitations resp)"
    unfolding c by simp
  from processChunk_finishing[OF assms(3,4,5), of stamp pid st1]
  obtain pre' st' where p: "processChunk stamp pid st1 resp =
            (pre' @
             (if foldl setAdd (pendingCitations st1) (getCitations resp) = [] then []
              else [Citation (''Citations:'' @ [CHR 0x0A] @
                      joinWith [CHR 0x0A] (sort (foldl setAdd (pendingCitations st1) (getCitations resp))))]) @
             [Finished (chunkFinishReason resp) (usageMetadata resp)], st', None)"
    and n: "list_all (\<lambda>e. \<not> isTerminal e \<and> \<not> isCitation e) pre'"
    and e: "pendingCitations st' = []" by blast
  have m: "list_all (\<lambda>e. \<not> isTerminal e \<and> \<not> isCitation e) (es0 @ pre')"
    using t n by simp
  have "fst (runLoop sig stamp pid (length pre) st1 (ChunkEvent (Some resp) # rest) fin) =
          pre' @
          (if foldl setAdd (pendingCitations st1) (getCitations resp) = [] then []
           else [Citation (''Citations:'' @ [CHR 0x0A] @
                   joinWith [CHR 0x0A] (sort (foldl setAdd (pendingCitations st1) (getCitations resp))))]) @
          Finished (chunkFinishReason resp) (usageMetadata resp) #
          fst (runLoop sig stamp pid (Suc (length pre)) st' rest fin)"
    using b p by (simp split: prod.splits)
  then have "fst (runLoop sig stamp pid 0 st (pre @ ChunkEvent (Some resp) # rest) fin) =
          (es0 @ pre') @
          (if foldl setAdd (pendingCitations st)
                (concat (map itemCitations pre) @ getCitations resp) = [] then []
           else [Citation (''Citations:'' @ [CHR 0x0A] @
                   joinWith [CHR 0x0A]
                     (sort (foldl setAdd (pendingCitations st)
                              (concat (map itemCitations pre) @ getCitations resp))))]) @
          Finished (chunkFinishReason resp) (usageMetadata resp) #
          fst (runLoop sig stamp pid (Suc (length pre)) st' rest fin)"
    unfolding r all by simp
  with m e show ?thesis by blast
qed



lemma processChunk_no_citation:
  assumes "getCitations resp = []" "pendingCitations st = []"
    "processChunk stamp pid st resp = (es, st', thr)"
  shows "list_all (\<lambda>e. \<not> isCitation e) es \<and> pendingCitations st' = []"
proof (cases "isThoughtChunk resp")
  case True
  with assms show ?thesis by (auto simp: processChunk_thought)
next
  case False
  show ?thesis
  proof (cases "callsThrow resp")
    case True
    then obtain e where "functionCalls resp = Some (Inl e)"
      by (auto simp: callsThrow_def split: option.splits sum.splits)
    with False assms show ?thesis by (auto simp: processChunk_throw split: option.splits)
  next
    case nt: False
    let ?st = "st\<lparr>debugResponses := debugResponses st @ [resp]\<rparr>"
    obtain ces st1 where h: "handleFunctionCalls stamp pid ?st (chunkCalls resp) = (ces, st1)"
      by (cases "handleFunctionCalls stamp pid ?st (chunkCalls resp)") auto
    from handleFunctionCalls_frame[OF h] assms(2)
    have c: "list_all (\<lambda>e. \<not> isCitation e) ces" and pc: "pendingCitations st1 = []"
      by (auto simp: list_all_iff)
    have f: "list_all (\<lambda>e. \<not> isCitation e) (fst (finishStep st1 resp)) \<and>
             pendingCitations (snd (finishStep st1 resp)) = []"
      using pc assms(1) by (simp add: finishStep_def Let_def)
    show ?thesis
      using assms(3) h c f processChunk_normal[OF False nt, of stamp pid st]
      by (auto split: option.splits)
  qed
qed

lemma catchEvent_no_citation: "\<not> isCitation (catchEvent b e)"
  by (simp add: catchEvent_def)

lemma runLoop_no_citation:
  "list_all citesNothing evs \<Longrightarrow> pendingCitations st = [] \<Longrightarrow>
   list_all (\<lambda>e. \<not> isCitation e) (fst (runLoop sig stamp pid k st evs fin))"
proof (induction evs arbitrary: k st)
  case Nil
  then show ?case by (cases fin) (auto simp: catchEvent_no_citation)
next
  case (Cons ev evs)
  show ?case
  proof (cases "sig k")
    case True
    then show ?thesis by (cases ev rule: quietItem.cases) auto
  next
    case False
    show ?thesis
    proof (cases ev rule: quietItem.cases)
      case (1 resp)
      obtain es st1 thr where p: "processChunk stamp pid st resp = (es, st1, thr)"
        by (cases "processChunk stamp pid st resp") auto
      from 1 Cons.prems have g: "getCitations resp = []" by simp
      from processChunk_no_citation[OF g Cons.prems(2) p]
      have na: "list_all (\<lambda>e. \<not> isCitation e) es" and pc: "pendingCitations st1 = []" by auto
      show ?thesis
      proof (cases thr)
        case None
        from Cons.IH[of st1 "Suc k"] Cons.prems pc
        have "list_all (\<lambda>e. \<not> isCitation e) (fst (runLoop sig stamp pid (Suc k) st1 evs fin))" by simp
        with na False p None 1 show ?thesis by (auto split: prod.splits)
      next
        case (Some e)
        with na False p 1 show ?thesis by (simp add: catchEvent_no_citation)
      qed
    next
      case "2_1"
      with False Cons.IH[of st "Suc k"] Cons.prems show ?thesis by (auto split: prod.splits)
    next
      case "2_2"
      with False Cons.IH[of st "Suc k"] Cons.prems show ?thesis by (auto split: prod.splits)
    qed
  qed
qed

lemma trim_empty_iff: "trim l = [] \<longleftrightarrow> list_all isWhiteSpace l"
proof
  assume "trim l = []"
  then have "\<forall>x\<in>set (dropWhile isWhiteSpace l). isWhiteSpace x"
    by (simp add: trim_def dropWhile_eq_Nil_conv)
  then have "dropWhile isWhiteSpace l = []"
    by (metis hd_dropWhile list.set_sel(1))
  then show "list_all isWhiteSpace l"
    by (simp add: dropWhile_eq_Nil_conv list_all_iff)
next
  assume "list_all isWhiteSpace l"
  then show "trim l = []"
    by (auto simp: trim_def list_all_iff dest: set_dropWhileD)
qed

lemma parseThought_summary:
  "parseThought txt =
     \<lparr>thoughtText = txt,
      summary = (case filter (\<lambda>l. \<not> blankLine l) (splitOn (CHR 0x0A) txt) of
                   [] \<Rightarrow> take 100 txt | l # ls \<Rightarrow> l)\<rparr>"
proof -
  have eq: "filter (\<lambda>line. trim line \<noteq> []) (splitOn (CHR 0x0A) txt) =
            filter (\<lambda>l. \<not> blankLine l) (splitOn (CHR 0x0A) txt)"
    by (simp add: trim_empty_iff blankLine_def)
  have ne: "\<And>l ls. filter (\<lambda>l. \<not> blankLine l) (splitOn (CHR 0x0A) txt) = l # ls \<Longrightarrow> l \<noteq> []"
  proof -
    fix l ls assume "filter (\<lambda>l. \<not> blankLine l) (splitOn (CHR 0x0A) txt) = l # ls"
    then have "l \<in> set (filter (\<lambda>l. \<not> blankLine l) (splitOn (CHR 0x0A) txt))" by simp
    then have "\<not> blankLine l" by simp
    then show "l \<noteq> []" by (auto simp: blankLine_def)
  qed
  show ?thesis
    unfolding parseThought_def Let_def eq
    by (auto split: list.splits dest: ne)
qed

lemma events_run_stream:
  "chat \<lparr>callModel = model, callMessage = req, callPromptId = pid\<rparr> = Stream evs fin \<Longrightarrow>
   events (run chat pid sig stamp st model req) = fst (runLoop sig stamp pid 0 st evs fin)"
  by (cases "runLoop sig stamp pid 0 st evs fin") (simp add: run_def)





text \<open>
  Claim C3, as amended. When the cancellation signal is already raised as \<^verbatim>\<open>run\<close>
  starts (its first read returns true), \<^verbatim>\<open>run\<close> still calls the transport, exactly
  once; it then yields the single event \<open>UserCancelled\<close>, unless the transport returns a
  stream that ends without any item, in which case it yields nothing.
\<close>

theorem run_when_already_cancelled:
  "sig 0 \<Longrightarrow>
   transportCalls (run chat pid sig stamp st model req) =
     [\<lparr>callModel = model, callMessage = req, callPromptId = pid\<rparr>] \<and>
   events (run chat pid sig stamp st model req) =
     (if chat \<lparr>callModel = model, callMessage = req, callPromptId = pid\<rparr> = Stream [] EndOfStream
      then [] else [UserCancelled])"
proof (cases "chat \<lparr>callModel = model, callMessage = req, callPromptId = pid\<rparr>")
  case (SendThrows e)
  assume "sig 0"
  with SendThrows show ?thesis by (simp add: run_def catchEvent_def)
next
  case (Stream evs fin)
  assume s: "sig 0"
  show ?thesis
  proof (cases evs)
    case Nil
    with Stream s show ?thesis by (cases fin) (simp_all add: run_def catchEvent_def)
  next
    case (Cons ev rest)
    with Stream s show ?thesis by (cases ev rule: quietItem.cases) (simp_all add: run_def)
  qed
qed

text \<open>
  The amended claim C3 on a transport that would deliver one text chunk.
\<close>

theorem run_when_already_cancelled_witness:
  "alreadyAborted 0 \<and>
   transportCalls (run (sampleChat [ChunkEvent (Some (textChunk ''Hello''))]) ''prompt-1'' alreadyAborted
       sampleStamp initialTurn ''gemini'' (MessageString ''hi'')) =
     [\<lparr>callModel = ''gemini'', callMessage = MessageString ''hi'', callPromptId = ''prompt-1''\<rparr>] \<and>
   events (run (sampleChat [ChunkEvent (Some (textChunk ''Hello''))]) ''prompt-1'' alreadyAborted
       sampleStamp initialTurn ''gemini'' (MessageString ''hi'')) = [UserCancelled]"
proof -
  have h: "alreadyAborted 0" by (simp add: alreadyAborted_def)
  show ?thesis
    using h run_when_already_cancelled[of alreadyAborted
        "sampleChat [ChunkEvent (Some (textChunk ''Hello''))]"
        "''prompt-1''" sampleStamp initialTurn "''gemini''" "MessageString ''hi''"]
    by (simp add: sampleChat_def)
qed

text \<open>
  Claim C3 as stated fails: with the signal raised from the start, the transport is called
  all the same.
\<close>

theorem run_already_cancelled_counterexample:
  "\<not> (events (run (sampleChat [ChunkEvent (Some (textChunk ''Hello''))]) ''prompt-1'' alreadyAborted
          sampleStamp initialTurn ''gemini'' (MessageString ''hi'')) = [UserCancelled] \<and>
      transportCalls (run (sampleChat [ChunkEvent (Some (textChunk ''Hello''))]) ''prompt-1'' alreadyAborted
          sampleStamp initialTurn ''gemini'' (MessageString ''hi'')) = [])"
  by (simp add: run_def sampleChat_def alreadyAborted_def)

text \<open>
  Claim C7, as amended. When the loop body processes a chunk with a finish reason, the chunk
  is not a thought chunk and its function calls can be read, the events of that chunk end
  with the \<open>Finished\<close> event; when the pending citations, those of the chunk included, are
  not empty, the event just before it is the only \<open>Citation\<close> event of the chunk, and it
  lists them sorted, without repetition; when they are empty there is no \<open>Citation\<close>
  event. The pending set is empty afterwards. In a run whose items before that chunk carry
  no finish reason and do not throw, with no cancellation observed, the citations listed are
  those pending at the start together with those of every earlier chunk that is not a
  thought chunk and those of the chunk itself, and no other \<open>Citation\<close> event comes
  before. A thought chunk, and a chunk whose function calls cannot be read, yield neither a
  \<open>Citation\<close> nor a \<open>Finished\<close> event and leave the pending set as it is, whatever
  finish reason they carry. A run from an empty pending set over items that carry no
  citation yields no \<open>Citation\<close> event.
\<close>

theorem finish_flushes_citations:
  "(\<not> isThoughtChunk resp \<longrightarrow> \<not> callsThrow resp \<longrightarrow> truthy (chunkFinishReason resp) \<longrightarrow>
      (\<exists>before st'.
         processChunk stamp pid st resp =
           (before @
            (if foldl setAdd (pendingCitations st) (getCitations resp) = [] then []
             else [Citation (''Citations:'' @ [CHR 0x0A] @
                     joinWith [CHR 0x0A] (sort (foldl setAdd (pendingCitations st) (getCitations resp))))]) @
            [Finished (chunkFinishReason resp) (usageMetadata resp)], st', None) \<and>
         list_all (\<lambda>e. \<not> isCitation e) before \<and> pendingCitations st' = []) \<and>
      sorted (sort (foldl setAdd (pendingCitations st) (getCitations resp))) \<and>
      set (sort (foldl setAdd (pendingCitations st) (getCitations resp))) =
        set (pendingCitations st) \<union> set (getCitations resp) \<and>
      (distinct (pendingCitations st) \<longrightarrow>
         distinct (sort (foldl setAdd (pendingCitations st) (getCitations resp))))) \<and>
   (chat \<lparr>callModel = model, callMessage = req, callPromptId = pid\<rparr> =
        Stream (pre @ ChunkEvent (Some resp) # rest) fin \<longrightarrow>
    list_all quietItem pre \<longrightarrow> (\<forall>k\<le>length pre. \<not> sig k) \<longrightarrow>
    \<not> isThoughtChunk resp \<longrightarrow> \<not> callsThrow resp \<longrightarrow> truthy (chunkFinishReason resp) \<longrightarrow>
      (\<exists>es0 st'.
         events (run chat pid sig stamp st model req) =
           es0 @
           (if foldl setAdd (pendingCitations st)
                 (concat (map itemCitations pre) @ getCitations resp) = [] then []
            else [Citation (''Citations:'' @ [CHR 0x0A] @
                    joinWith [CHR 0x0A]
                      (sort (foldl setAdd (pendingCitations st)
                               (concat (map itemCitations pre) @ getCitations resp))))]) @
           Finished (chunkFinishReason resp) (usageMetadata resp) #
           fst (runLoop sig stamp pid (Suc (length pre)) st' rest fin) \<and>
         list_all (\<lambda>e. \<not> isTerminal e \<and> \<not> isCitation e) es0 \<and>
         pendingCitations st' = [])) \<and>
   (isThoughtChunk resp \<or> callsThrow resp \<longrightarrow>
      filter isCitation (fst (processChunk stamp pid st resp)) = [] \<and>
      filter isFinished (fst (processChunk stamp pid st resp)) = [] \<and>
      pendingCitations (fst (snd (processChunk stamp pid st resp))) = pendingCitations st) \<and>
   (pendingCitations st = [] \<longrightarrow> list_all citesNothing items \<longrightarrow>
      filter isCitation (fst (runLoop sig stamp pid k st items fin)) = [])"
proof -
  have chunk: "\<exists>before st'.
         processChunk stamp pid st resp =
           (before @
            (if foldl setAdd (pendingCitations st) (getCitations resp) = [] then []
             else [Citation (''Citations:'' @ [CHR 0x0A] @
                     joinWith [CHR 0x0A] (sort (foldl setAdd (pendingCitations st) (getCitations resp))))]) @
            [Finished (chunkFinishReason resp) (usageMetadata resp)], st', None) \<and>
         list_all (\<lambda>e. \<not> isCitation e) before \<and> pendingCitations st' = []"
    if h: "\<not> isThoughtChunk resp" "\<not> callsThrow resp" "truthy (chunkFinishReason resp)"
    using processChunk_finishing[OF h, of stamp pid st] by (auto simp: list_all_iff)
  have order: "sorted (sort (foldl setAdd (pendingCitations st) (getCitations resp)))" by simp
  have members: "set (sort (foldl setAdd (pendingCitations st) (getCitations resp))) =
        set (pendingCitations st) \<union> set (getCitations resp)"
    by (simp add: set_foldl_setAdd)
  have once: "distinct (sort (foldl setAdd (pendingCitations st) (getCitations resp)))"
    if "distinct (pendingCitations st)"
    using that by (simp add: distinct_foldl_setAdd)
  have whole: "\<exists>es0 st'.
         events (run chat pid sig stamp st model req) =
           es0 @
           (if foldl setAdd (pendingCitations st)
                 (concat (map itemCitations pre) @ getCitations resp) = [] then []
            else [Citation (''Citations:'' @ [CHR 0x0A] @
                    joinWith [CHR 0x0A]
                      (sort (foldl setAdd (pendingCitations st)
                               (concat (map itemCitations pre) @ getCitations resp))))]) @
           Finished (chunkFinishReason resp) (usageMetadata resp) #
           fst (runLoop sig stamp pid (Suc (length pre)) st' rest fin) \<and>
         list_all (\<lambda>e. \<not> isTerminal e \<and> \<not> isCitation e) es0 \<and>
         pendingCitations st' = []"
    if c: "chat \<lparr>callModel = model, callMessage = req, callPromptId = pid\<rparr> =
        Stream (pre @ ChunkEvent (Some resp) # rest) fin"
      and h: "list_all quietItem pre" "\<forall>k\<le>length pre. \<not> sig k"
        "\<not> isThoughtChunk resp" "\<not> callsThrow resp" "truthy (chunkFinishReason resp)"
  proof -
    have e: "events (run chat pid sig stamp st model req) =
             fst (runLoop sig stamp pid 0 st (pre @ ChunkEvent (Some resp) # rest) fin)"
      using c by (rule events_run_stream)
    from runLoop_finish_after_quiet[OF h, of stamp pid st rest fin]
    show ?thesis unfolding e by blast
  qed
  have skipped: "filter isCitation (fst (processChunk stamp pid st resp)) = [] \<and>
      filter isFinished (fst (processChunk stamp pid st resp)) = [] \<and>
      pendingCitations (fst (snd (processChunk stamp pid st resp))) = pendingCitations st"
    if d: "isThoughtChunk resp \<or> callsThrow resp"
  proof (cases "isThoughtChunk resp")
    case True
    then show ?thesis by (simp add: processChunk_thought)
  next
    case False
    with d have "callsThrow resp" by simp
    then obtain e where "functionCalls resp = Some (Inl e)"
      by (auto simp: callsThrow_def split: option.splits sum.splits)
    with False show ?thesis by (simp add: processChunk_throw split: option.splits)
  qed
  have none: "filter isCitation (fst (runLoop sig stamp pid k st items fin)) = []"
    if "pendingCitations st = []" "list_all citesNothing items"
    using runLoop_no_citation[OF that(2,1), of sig stamp pid k fin] by (rule filter_none)
  from chunk order members once whole skipped none show ?thesis by blast
qed

lemma cited_facts:
  "\<not> isThoughtChunk citedFinishChunk" "\<not> callsThrow citedFinishChunk"
  "truthy (chunkFinishReason citedFinishChunk)"
  "chunkFinishReason citedFinishChunk = Some ''STOP''" "usageMetadata citedFinishChunk = None"
  "getCitations citedFinishChunk = [''https://b.example'', ''https://a.example'', ''https://b.example'']"
  by (simp_all add: citedFinishChunk_def sampleCandidate_def chunkFinishReason_def
        firstCandidate_def callsThrow_def isThoughtChunk_def responseParts_def getCitations_def
        citationText_def)

lemma citing_facts:
  "\<not> isThoughtChunk citingChunk" "\<not> callsThrow citingChunk"
  "\<not> truthy (chunkFinishReason citingChunk)"
  "getCitations citingChunk = [''https://b.example'']"
  by (simp_all add: citingChunk_def chunkFinishReason_def
        firstCandidate_def callsThrow_def isThoughtChunk_def responseParts_def getCitations_def
        citationText_def)

text \<open>
  The amended claim C7 on a finish chunk that cites two sources, one of them twice, in
  reverse order, and on the run in which that chunk comes after a chunk that cites one of the
  two.
\<close>

theorem finish_flushes_citations_witness:
  "(\<exists>before st'.
     processChunk sampleStamp ''prompt-1'' initialTurn citedFinishChunk =
       (before @ [Citation (''Citations:'' @ [CHR 0x0A] @ ''https://a.example'' @ [CHR 0x0A] @ ''https://b.example''),
               Finished (Some ''STOP'') None], st', None) \<and>
     list_all (\<lambda>e. \<not> isCitation e) before \<and> pendingCitations st' = []) \<and>
   (\<exists>es0.
     events (run (sampleChat [ChunkEvent (Some citingChunk), ChunkEvent (Some citedFinishChunk)])
               ''prompt-1'' neverAborted sampleStamp initialTurn ''gemini'' (MessageString ''hi'')) =
       es0 @ [Citation (''Citations:'' @ [CHR 0x0A] @ ''https://a.example'' @ [CHR 0x0A] @ ''https://b.example''),
              Finished (Some ''STOP'') None] \<and>
     list_all (\<lambda>e. \<not> isTerminal e \<and> \<not> isCitation e) es0)"
proof -
  have c: "foldl setAdd (pendingCitations initialTurn) (getCitations citedFinishChunk) =
           [''https://b.example'', ''https://a.example'']"
    by (simp add: cited_facts initialTurn_def setAdd_def)
  have c': "foldl setAdd (pendingCitations initialTurn)
              (concat (map itemCitations [ChunkEvent (Some citingChunk)]) @
               getCitations citedFinishChunk) =
           [''https://b.example'', ''https://a.example'']"
    by (simp add: cited_facts citing_facts initialTurn_def setAdd_def)
  have s: "sort [''https://b.example'', ''https://a.example''] =
           [''https://a.example'', ''https://b.example'']" by simp
  have q: "list_all quietItem [ChunkEvent (Some citingChunk)]"
    by (simp add: citing_facts)
  have n: "\<forall>k\<le>length [ChunkEvent (Some citingChunk)]. \<not> neverAborted k"
    by (simp add: neverAborted_def)
  have t: "sampleChat [ChunkEvent (Some citingChunk), ChunkEvent (Some citedFinishChunk)]
             \<lparr>callModel = ''gemini'', callMessage = MessageString ''hi'', callPromptId = ''prompt-1''\<rparr> =
           Stream ([ChunkEvent (Some citingChunk)] @ ChunkEvent (Some citedFinishChunk) # []) EndOfStream"
    by (simp add: sampleChat_def)
  note inst = finish_flushes_citations[of citedFinishChunk sampleStamp "''prompt-1''" initialTurn
      "sampleChat [ChunkEvent (Some citingChunk), ChunkEvent (Some citedFinishChunk)]"
      "''gemini''" "MessageString ''hi''" "[ChunkEvent (Some citingChunk)]" "[]" EndOfStream
      neverAborted]
  from inst cited_facts(1,2,3)
  have a: "\<exists>before st'.
     processChunk sampleStamp ''prompt-1'' initialTurn citedFinishChunk =
       (before @
        (if foldl setAdd (pendingCitations initialTurn) (getCitations citedFinishChunk) = [] then []
         else [Citation (''Citations:'' @ [CHR 0x0A] @
                 joinWith [CHR 0x0A]
                   (sort (foldl setAdd (pendingCitations initialTurn) (getCitations citedFinishChunk))))]) @
        [Finished (chunkFinishReason citedFinishChunk) (usageMetadata citedFinishChunk)], st', None) \<and>
     list_all (\<lambda>e. \<not> isCitation e) before \<and> pendingCitations st' = []"
    by blast
  from inst t q n cited_facts(1,2,3)
  have b: "\<exists>es0 st'.
     events (run (sampleChat [ChunkEvent (Some citingChunk), ChunkEvent (Some citedFinishChunk)])
               ''prompt-1'' neverAborted sampleStamp initialTurn ''gemini'' (MessageString ''hi'')) =
       es0 @
       (if foldl setAdd (pendingCitations initialTurn)
             (concat (map itemCitations [ChunkEvent (Some citingChunk)]) @
              getCitations citedFinishChunk) = [] then []
        else [Citation (''Citations:'' @ [CHR 0x0A] @
                joinWith [CHR 0x0A]
                  (sort (foldl setAdd (pendingCitations initialTurn)
                           (concat (map itemCitations [ChunkEvent (Some citingChunk)]) @
                            getCitations citedFinishChunk))))]) @
       Finished (chunkFinishReason citedFinishChunk) (usageMetadata citedFinishChunk) #
       fst (runLoop neverAborted sampleStamp ''prompt-1'' (Suc (length [ChunkEvent (Some citingChunk)])) st'
              [] EndOfStream) \<and>
     list_all (\<lambda>e. \<not> isTerminal e \<and> \<not> isCitation e) es0 \<and>
     pendingCitations st' = []"
    by blast
  from a have a': "\<exists>before st'.
     processChunk sampleStamp ''prompt-1'' initialTurn citedFinishChunk =
       (before @ [Citation (''Citations:'' @ [CHR 0x0A] @ ''https://a.example'' @ [CHR 0x0A] @ ''https://b.example''),
               Finished (Some ''STOP'') None], st', None) \<and>
     list_all (\<lambda>e. \<not> isCitation e) before \<and> pendingCitations st' = []"
    unfolding c s by (simp add: cited_facts)
  from b have b': "\<exists>es0.
     events (run (sampleChat [ChunkEvent (Some citingChunk), ChunkEvent (Some citedFinishChunk)])
               ''prompt-1'' neverAborted sampleStamp initialTurn ''gemini'' (MessageString ''hi'')) =
       es0 @ [Citation (''Citations:'' @ [CHR 0x0A] @ ''https://a.example'' @ [CHR 0x0A] @ ''https://b.example''),
              Finished (Some ''STOP'') None] \<and>
     list_all (\<lambda>e. \<not> isTerminal e \<and> \<not> isCitation e) es0"
    unfolding c' s by (auto simp: cited_facts)
  from a' b' show ?thesis by blast
qed

text \<open>
  Claim C7 as stated fails. After a chunk that cites a source, a thought chunk that carries
  a finish reason yields only the \<open>Thought\<close> event: no \<open>Citation\<close> event, no
  \<open>Finished\<close> event, and the pending set keeps the citation. After the same chunk, a chunk
  with a finish reason whose function calls cannot be read ends the run with an error
  event, and again the citation is neither yielded nor cleared.
\<close>

theorem finish_without_flush_counterexample:
  "truthy (chunkFinishReason (thoughtChunk ''plan'')) \<and>
   events (run (sampleChat [ChunkEvent (Some citingChunk), ChunkEvent (Some (thoughtChunk ''plan''))])
             ''prompt-1'' neverAborted sampleStamp initialTurn ''gemini'' (MessageString ''hi'')) =
     [Content ''cited'', Thought \<lparr>thoughtText = ''plan'', summary = ''plan''\<rparr>] \<and>
   pendingCitations (finalState
       (run (sampleChat [ChunkEvent (Some citingChunk), ChunkEvent (Some (thoughtChunk ''plan''))])
          ''prompt-1'' neverAborted sampleStamp initialTurn ''gemini'' (MessageString ''hi''))) =
     [''https://b.example''] \<and>
   truthy (chunkFinishReason throwingFinishChunk) \<and>
   events (run (sampleChat [ChunkEvent (Some citingChunk), ChunkEvent (Some throwingFinishChunk)])
             ''prompt-1'' neverAborted sampleStamp initialTurn ''gemini'' (MessageString ''hi'')) =
     [Content ''cited'', Error \<lparr>message = ''boom'', status = None\<rparr>] \<and>
   pendingCitations (finalState
       (run (sampleChat [ChunkEvent (Some citingChunk), ChunkEvent (Some throwingFinishChunk)])
          ''prompt-1'' neverAborted sampleStamp initialTurn ''gemini'' (MessageString ''hi''))) =
     [''https://b.example'']"
  by code_simp

text \<open>
  Claim C9, as amended. For a chunk whose first part has the thought flag, the loop body
  yields the single event \<open>Thought\<close>, throws nothing and changes the state only by
  logging the chunk: text of other parts, function calls, citations and the finish reason
  of that chunk are dropped, and the loop goes on with the next item. The summary is the
  first line that is not white space only, or the first 100 characters of the text when
  every line is white space only.
\<close>

theorem thought_chunk_yields_only_thought:
  "isThoughtChunk resp \<Longrightarrow>
   processChunk stamp pid st resp =
     ([Thought \<lparr>thoughtText = thoughtPartText resp,
                summary = (case filter (\<lambda>l. \<not> blankLine l) (splitOn (CHR 0x0A) (thoughtPartText resp)) of
                             [] \<Rightarrow> take 100 (thoughtPartText resp) | l # ls \<Rightarrow> l)\<rparr>],
      st\<lparr>debugResponses := debugResponses st @ [resp]\<rparr>, None) \<and>
   (\<not> sig k \<longrightarrow>
      runLoop sig stamp pid k st (ChunkEvent (Some resp) # items) fin =
        (Thought (parseThought (thoughtPartText resp)) #
           fst (runLoop sig stamp pid (Suc k) (st\<lparr>debugResponses := debugResponses st @ [resp]\<rparr>) items fin),
         snd (runLoop sig stamp pid (Suc k) (st\<lparr>debugResponses := debugResponses st @ [resp]\<rparr>) items fin)))"
  by (simp add: processChunk_thought parseThought_summary split: prod.splits)

lemma thought_facts:
  "isThoughtChunk (thoughtChunk t)" "thoughtPartText (thoughtChunk t) = t"
  by (simp_all add: thoughtChunk_def isThoughtChunk_def thoughtPartText_def responseParts_def
        firstCandidate_def)

lemma blank_sample:
  "filter (\<lambda>l. \<not> blankLine l) (splitOn (CHR 0x0A) ('' '' @ [CHR 0x0A] @ ''x'')) = [''x'']"
  by (simp add: blankLine_def isWhiteSpace_def)

text \<open>
  The amended claim C9 on a thought chunk whose text is a line of one space followed by
  the line \<^verbatim>\<open>x\<close>; the chunk also carries a second part, a function call, a citation
  and a finish reason.
\<close>

theorem thought_chunk_yields_only_thought_witness:
  "isThoughtChunk (thoughtChunk ('' '' @ [CHR 0x0A] @ ''x'')) \<and>
   processChunk sampleStamp ''prompt-1'' initialTurn (thoughtChunk ('' '' @ [CHR 0x0A] @ ''x'')) =
     ([Thought \<lparr>thoughtText = '' '' @ [CHR 0x0A] @ ''x'', summary = ''x''\<rparr>],
      initialTurn\<lparr>debugResponses := debugResponses initialTurn @ [thoughtChunk ('' '' @ [CHR 0x0A] @ ''x'')]\<rparr>,
      None)"
proof -
  have h: "isThoughtChunk (thoughtChunk ('' '' @ [CHR 0x0A] @ ''x''))" by (rule thought_facts)
  from thought_chunk_yields_only_thought[OF h, of sampleStamp "''prompt-1''" initialTurn]
  have "processChunk sampleStamp ''prompt-1'' initialTurn (thoughtChunk ('' '' @ [CHR 0x0A] @ ''x'')) =
     ([Thought \<lparr>thoughtText = thoughtPartText (thoughtChunk ('' '' @ [CHR 0x0A] @ ''x'')),
                summary = (case filter (\<lambda>l. \<not> blankLine l) (splitOn (CHR 0x0A) (thoughtPartText (thoughtChunk ('' '' @ [CHR 0x0A] @ ''x'')))) of
                             [] \<Rightarrow> take 100 (thoughtPartText (thoughtChunk ('' '' @ [CHR 0x0A] @ ''x''))) | l # ls \<Rightarrow> l)\<rparr>],
      initialTurn\<lparr>debugResponses := debugResponses initialTurn @ [thoughtChunk ('' '' @ [CHR 0x0A] @ ''x'')]\<rparr>, None)"
    by (rule conjunct1)
  then show ?thesis unfolding thought_facts blank_sample using h by simp
qed

text \<open>
  Claim C9 as stated fails on that chunk: the first non-empty line of the text is the line
  of one space, and the summary is \<^verbatim>\<open>x\<close>.
\<close>

theorem thought_summary_counterexample:
  "firstNonEmptyLineSummary ('' '' @ [CHR 0x0A] @ ''x'') = '' '' \<and>
   fst (processChunk sampleStamp ''prompt-1'' initialTurn (thoughtChunk ('' '' @ [CHR 0x0A] @ ''x''))) =
     [Thought \<lparr>thoughtText = '' '' @ [CHR 0x0A] @ ''x'', summary = ''x''\<rparr>]"
proof -
  have a: "firstNonEmptyLineSummary ('' '' @ [CHR 0x0A] @ ''x'') = '' ''"
    by (simp add: firstNonEmptyLineSummary_def)
  have b: "parseThought ('' '' @ [CHR 0x0A] @ ''x'') = \<lparr>thoughtText = '' '' @ [CHR 0x0A] @ ''x'', summary = ''x''\<rparr>"
    unfolding parseThought_summary blank_sample by simp
  show ?thesis using a b by (simp add: processChunk_thought thought_facts)
qed

section \<open>Properties of the tools and of the registry\<close>

lemma default_names:
  "map_of (registerDefaultTools cfg env) nm = None \<longleftrightarrow>
     nm \<notin> set [''read_file'', ''glob'', ''grep'', ''list_directory'']"
  unfolding registerDefaultTools_def addTool_def ReadFileTool_def GlobTool_def GrepTool_def
    ListDirectoryTool_def
  by simp

lemma sample_registry_unknown: "map_of sampleRegistry ''write_file'' = None"
proof -
  have "''write_file'' \<notin> set [''read_file'', ''glob'', ''grep'', ''list_directory'']" by simp
  then show ?thesis unfolding sampleRegistry_def by (rule default_names[THEN iffD2])
qed

lemma grep_undefined_ignorePatterns:
  "ignorePatterns cfg = None \<Longrightarrow> \<exists>e. GrepTool_execute cfg env sig params = ([], Inl e)"
  unfolding GrepTool_execute_def Let_def
  by (simp split: option.split json_value.split)

lemma glob_undefined_ignorePatterns:
  "ignorePatterns cfg = None \<Longrightarrow> \<exists>e. GlobTool_execute cfg env sig params = ([], Inl e)"
  unfolding GlobTool_execute_def Let_def
  by (simp split: option.split json_value.split)

lemma glob_spread_error:
  "ignorePatterns cfg = None \<Longrightarrow> map_of params ''pattern'' = Some (JStr pat) \<Longrightarrow> trim pat \<noteq> [] \<Longrightarrow>
   GlobTool_execute cfg env sig params =
     ([], Inl (ToolExecutionError ''glob'' (messageOf spreadTypeError)))"
  unfolding GlobTool_execute_def Let_def
  by (simp add: rethrow_def spreadTypeError_def)

lemma grep_spread_error:
  "ignorePatterns cfg = None \<Longrightarrow> map_of params ''pattern'' = Some (JStr pat) \<Longrightarrow> trim pat \<noteq> [] \<Longrightarrow>
   \<forall>flags. regExp env pat flags \<noteq> None \<Longrightarrow>
   GrepTool_execute cfg env sig params =
     ([], Inl (ToolExecutionError ''grep'' (messageOf spreadTypeError)))"
proof -
  assume a: "ignorePatterns cfg = None" "map_of params ''pattern'' = Some (JStr pat)" "trim pat \<noteq> []"
    and r: "\<forall>flags. regExp env pat flags \<noteq> None"
  from r obtain x where x: "regExp env pat ''g'' = Some x" by blast
  from r obtain y where y: "regExp env pat ''gi'' = Some y" by blast
  show ?thesis
    unfolding GrepTool_execute_def Let_def
    using a x y by (simp add: rethrow_def spreadTypeError_def)
qed

text \<open>
  Claim C4, as amended. For a name that is not registered, \<^verbatim>\<open>executeTool\<close> returns no
  result: it throws an error whose message reports the unknown tool, and no tool is executed
  (no access to the file system is made). For the registry that the constructor builds, this
  is the case of every name other than the four default tools.
\<close>

theorem unknown_tool_throws:
  "(getTool reg nm = None \<longrightarrow>
      executeTool reg nm params sig = ([], Inl (PlainError (''Unknown tool: '' @ nm) None))) \<and>
   (nm \<notin> set [''read_file'', ''glob'', ''grep'', ''list_directory''] \<longrightarrow>
      executeTool (registerDefaultTools cfg env) nm params sig =
        ([], Inl (PlainError (''Unknown tool: '' @ nm) None)))"
proof (intro conjI impI)
  assume "getTool reg nm = None"
  then show "executeTool reg nm params sig = ([], Inl (PlainError (''Unknown tool: '' @ nm) None))"
    by (simp add: executeTool_def)
next
  assume "nm \<notin> set [''read_file'', ''glob'', ''grep'', ''list_directory'']"
  then have "map_of (registerDefaultTools cfg env) nm = None"
    by (rule default_names[THEN iffD2])
  then show "executeTool (registerDefaultTools cfg env) nm params sig =
        ([], Inl (PlainError (''Unknown tool: '' @ nm) None))"
    by (simp add: executeTool_def getTool_def)
qed

text \<open>
  The amended claim C4 on the default registry and the name \<^verbatim>\<open>write_file\<close>.
\<close>

theorem unknown_tool_throws_witness:
  "getTool sampleRegistry ''write_file'' = None \<and>
   executeTool sampleRegistry ''write_file'' [] neverAborted =
     ([], Inl (PlainError ''Unknown tool: write_file'' None))"
proof -
  have h: "getTool sampleRegistry ''write_file'' = None"
    unfolding getTool_def by (rule sample_registry_unknown)
  from unknown_tool_throws[of sampleRegistry "''write_file''" "[]" neverAborted] h
  show ?thesis by simp
qed

text \<open>
  Claim C4 as stated fails: the call for the unknown tool \<^verbatim>\<open>write_file\<close> does not return
  a failure result, it throws a plain \<^verbatim>\<open>Error\<close>.
\<close>

theorem unknown_tool_counterexample:
  "snd (executeTool sampleRegistry ''write_file'' [(''path'', JStr ''a.ts'')] neverAborted) =
     Inl (PlainError ''Unknown tool: write_file'' None)"
  using sample_registry_unknown by (simp add: executeTool_def getTool_def)

text \<open>
  Claim C10. When the configuration of a grep or glob tool has no \<^verbatim>\<open>ignorePatterns\<close>,
  every call of \<^verbatim>\<open>execute\<close> throws, and it does so before any access to the file
  system (the log of calls is empty). For a pattern that passes the checks made before the
  spread, what is thrown is the \<^verbatim>\<open>TypeError\<close> of the spread, wrapped by the
  \<^verbatim>\<open>catch\<close> block.
\<close>

theorem undefined_ignorePatterns_fails:
  "ignorePatterns cfg = None \<Longrightarrow>
   (\<exists>e. GrepTool_execute cfg env sig params = ([], Inl e)) \<and>
   (\<exists>e. GlobTool_execute cfg env sig params = ([], Inl e)) \<and>
   (map_of params ''pattern'' = Some (JStr pat) \<longrightarrow> trim pat \<noteq> [] \<longrightarrow>
      GlobTool_execute cfg env sig params =
        ([], Inl (ToolExecutionError ''glob'' (messageOf spreadTypeError))) \<and>
      ((\<forall>flags. regExp env pat flags \<noteq> None) \<longrightarrow>
         GrepTool_execute cfg env sig params =
           ([], Inl (ToolExecutionError ''grep'' (messageOf spreadTypeError)))))"
  using grep_undefined_ignorePatterns[of cfg env sig params]
    glob_undefined_ignorePatterns[of cfg env sig params]
    glob_spread_error[of cfg params pat env sig] grep_spread_error[of cfg params pat env sig]
  by blast

text \<open>
  Claim C10 on the sample workspace, with \<^verbatim>\<open>ignorePatterns\<close> removed from its
  configuration.
\<close>

theorem undefined_ignorePatterns_fails_witness:
  "ignorePatterns (sampleConfig\<lparr>ignorePatterns := None\<rparr>) = None \<and>
   GrepTool_execute (sampleConfig\<lparr>ignorePatterns := None\<rparr>) sampleEnv neverAborted
      [(''pattern'', JStr ''TODO'')] =
     ([], Inl (ToolExecutionError ''grep'' (messageOf spreadTypeError))) \<and>
   GlobTool_execute (sampleConfig\<lparr>ignorePatterns := None\<rparr>) sampleEnv neverAborted
      [(''pattern'', JStr ''TODO'')] =
     ([], Inl (ToolExecutionError ''glob'' (messageOf spreadTypeError)))"
proof -
  have h: "ignorePatterns (sampleConfig\<lparr>ignorePatterns := None\<rparr>) = None" by simp
  have p: "map_of [(''pattern'', JStr ''TODO'')] ''pattern'' = Some (JStr ''TODO'')" by simp
  have t: "trim ''TODO'' \<noteq> []" by (simp add: trim_def isWhiteSpace_def)
  have r: "\<forall>flags. regExp sampleEnv ''TODO'' flags \<noteq> None"
    by (simp add: sampleEnv_def literalRegExp_def)
  from undefined_ignorePatterns_fails[OF h, of sampleEnv neverAborted "[(''pattern'', JStr ''TODO'')]" "''TODO''"]
    h p t r
  show ?thesis by blast
qed

text \<open>
  Claim C5 fails on the code. On the sample workspace, with the signal raised after the first
  file, the grep tool returns a success result with the three matches of the first file, not
  flagged as truncated, and never reads the second file (which holds a fourth match); the
  directory lister, with the signal raised after two entries, returns a success result with
  these two of the three entries; the file reader, with the signal raised before the read,
  returns the failure \<^verbatim>\<open>Operation cancelled\<close>.
\<close>

theorem cancelled_scan_partial_success:
  "(case snd (GrepTool_execute sampleConfig sampleEnv (abortedFrom 1) [(''pattern'', JStr ''TODO'')]) of
      Inl e \<Rightarrow> False
    | Inr r \<Rightarrow> success r \<and> resultError r = None \<and> resultItems r = 3 \<and> \<not> resultTruncated r) \<and>
   fst (GrepTool_execute sampleConfig sampleEnv (abortedFrom 1) [(''pattern'', JStr ''TODO'')]) =
     [GlobCall ''**/*'' ''/repo'' grepDefaultIgnores, ReadFileCall ''/repo/a.ts'' ''utf-8''] \<and>
   (case snd (ListDirectoryTool_execute sampleConfig sampleEnv (abortedFrom 2) [(''path'', JStr ''.'')]) of
      Inl e \<Rightarrow> False
    | Inr r \<Rightarrow> success r \<and> resultError r = None \<and> resultItems r = 2) \<and>
   (case snd (ListDirectoryTool_execute sampleConfig sampleEnv neverAborted [(''path'', JStr ''.'')]) of
      Inl e \<Rightarrow> False
    | Inr r \<Rightarrow> success r \<and> resultItems r = 3) \<and>
   ReadFileTool_execute sampleConfig sampleEnv (abortedFrom 0) [(''file_path'', JStr ''a.ts'')] =
     ([], Inr (createErrorResult ''Operation cancelled''))"
  by code_simp

text \<open>
  What does hold of the limit: the glob tool never returns more than \<^verbatim>\<open>maxResults\<close>
  items and flags exactly the results it cut; the grep tool never returns more than
  \<^verbatim>\<open>maxResults\<close> rounded up, hence no more than \<^verbatim>\<open>maxResults\<close> when that is an
  integer.
\<close>

lemma maxResultsOf_pos: "0 < dflt \<Longrightarrow> 0 < maxResultsOf params dflt"
  by (simp add: maxResultsOf_def split: option.split json_value.split)

lemma take_floor_le:
  assumes "0 < (m::rat)"
  shows "of_nat (length (take (nat \<lfloor>m\<rfloor>) xs)) \<le> m"
proof -
  have "length (take (nat \<lfloor>m\<rfloor>) xs) \<le> nat \<lfloor>m\<rfloor>" by simp
  then have "(of_nat (length (take (nat \<lfloor>m\<rfloor>) xs)) :: rat) \<le> of_nat (nat \<lfloor>m\<rfloor>)"
    by (simp only: of_nat_le_iff)
  also have "\<dots> = of_int \<lfloor>m\<rfloor>" using assms by simp
  also have "\<dots> \<le> m" by (rule of_int_floor_le)
  finally show ?thesis .
qed

lemma glob_result_limit:
  assumes "GlobTool_execute cfg env sig params = (calls, Inr r)"
  shows "of_nat (resultItems r) \<le> maxResultsOf params 100 \<and>
         (\<exists>d. display r = Some (GlobDisplay d) \<and> returnedCount d = resultItems r \<and>
              (truncated d \<longleftrightarrow> maxResultsOf params 100 < of_nat (matchCount d)))"
proof -
  have p: "0 < maxResultsOf params 100" by (rule maxResultsOf_pos) simp
  show ?thesis
    using assms take_floor_le[OF p]
    unfolding GlobTool_execute_def Let_def
    by (auto simp: createSuccessResult_def resultItems_def
          split: option.splits json_value.splits if_splits sum.splits)
qed

lemma below_ceiling: "of_nat n < (m::rat) \<Longrightarrow> Suc n \<le> nat \<lceil>m\<rceil>"
proof -
  assume "of_nat n < m"
  then have "of_int (int n) < m" by simp
  then have "int n < \<lceil>m\<rceil>" by (simp only: less_ceiling_iff)
  then show ?thesis by linarith
qed

lemma grepLines_limit:
  "length ms \<le> nat \<lceil>mx\<rceil> \<Longrightarrow>
   length (fst (grepLines exec mx f i (ms, has) ls)) \<le> nat \<lceil>mx\<rceil>"
proof (induction ls arbitrary: ms has i)
  case Nil
  then show ?case by simp
next
  case (Cons l ls)
  show ?case
  proof (cases "of_nat (length ms) < mx")
    case True
    note lt = this
    show ?thesis
    proof (cases "exec l")
      case None
      with lt Cons.IH[OF Cons.prems] show ?thesis by simp
    next
      case (Some a)
      obtain idx len where a: "a = (idx, len)" by (cases a)
      let ?m = "\<lparr>matchFile = f, matchLine = i + 1, matchContent = trim l,
                 matchStart = idx, matchEnd = idx + len\<rparr>"
      have "length (ms @ [?m]) \<le> nat \<lceil>mx\<rceil>" using below_ceiling[OF lt] by simp
      from Cons.IH[OF this] lt Some a show ?thesis by simp
    qed
  next
    case False
    with Cons.prems show ?thesis by simp
  qed
qed

lemma grepFiles_limit:
  "length (scanMatches sc) \<le> nat \<lceil>mx\<rceil> \<Longrightarrow>
   length (scanMatches (grepFiles cfg env sig exec mx k sc fs)) \<le> nat \<lceil>mx\<rceil>"
proof (induction fs arbitrary: sc k)
  case Nil
  then show ?case by simp
next
  case (Cons f fs)
  let ?abs = "resolve (processCwd env) [workspaceDir cfg, f]"
  let ?sc1 = "sc\<lparr>scanLog := scanLog sc @ [ReadFileCall ?abs ''utf-8'']\<rparr>"
  have s1: "length (scanMatches ?sc1) \<le> nat \<lceil>mx\<rceil>" using Cons.prems by simp
  show ?case
  proof (cases "sig k \<or> of_nat (length (scanMatches sc)) \<ge> mx")
    case True
    with Cons.prems show ?thesis by auto
  next
    case False
    show ?thesis
    proof (cases "readFileLib env ?abs ''utf-8''")
      case (Inl e)
      with False Cons.IH[OF s1] show ?thesis by (simp add: Let_def)
    next
      case (Inr body)
      obtain ms has where g: "grepLines exec mx f 0 (scanMatches ?sc1, False) (splitOn (CHR 0x0A) body) = (ms, has)"
        by (cases "grepLines exec mx f 0 (scanMatches ?sc1, False) (splitOn (CHR 0x0A) body)")
      from grepLines_limit[OF s1, of exec f 0 False "splitOn (CHR 0x0A) body"] g
      have "length ms \<le> nat \<lceil>mx\<rceil>" by simp
      then have "length (scanMatches (?sc1\<lparr>scanMatches := ms, scanSearched := scanSearched ?sc1 + 1,
                   scanWithMatches := scanWithMatches ?sc1 + (if has then 1 else 0)\<rparr>)) \<le> nat \<lceil>mx\<rceil>"
        by simp
      from Cons.IH[OF this] False Inr g show ?thesis by (simp add: Let_def)
    qed
  qed
qed

lemma grep_result_limit:
  assumes "GrepTool_execute cfg env sig params = (calls, Inr r)"
  shows "resultItems r \<le> nat \<lceil>maxResultsOf params 50\<rceil>"
proof -
  have "\<And>exec c files. length (scanMatches (grepFiles cfg env sig exec (maxResultsOf params 50) 0
            \<lparr>scanMatches = [], scanSearched = 0, scanWithMatches = 0, scanLog = c\<rparr> files))
          \<le> nat \<lceil>maxResultsOf params 50\<rceil>"
    by (rule grepFiles_limit) simp
  then show ?thesis
    using assms
    unfolding GrepTool_execute_def Let_def
    by (auto simp: createSuccessResult_def resultItems_def
          split: option.splits json_value.splits if_splits sum.splits)
qed

lemma grep_result_limit_integer:
  assumes "GrepTool_execute cfg env sig params = (calls, Inr r)"
    and "maxResultsOf params 50 = of_nat n"
  shows "resultItems r \<le> n"
  using grep_result_limit[OF assms(1)] assms(2) by simp

text \<open>
  Claim C6 fails on the code. With \<^verbatim>\<open>maxResults\<close> 2.5, the grep tool returns three
  matches: its loops stop only when the number of matches is no longer below the maximum.
\<close>

theorem grep_fractional_limit:
  "(case snd (GrepTool_execute sampleConfig sampleEnv neverAborted
                [(''pattern'', JStr ''TODO''), (''maxResults'', JNum (5 / 2))]) of
      Inl e \<Rightarrow> False
    | Inr r \<Rightarrow> success r \<and> resultItems r = 3 \<and> (5 / 2 :: rat) < of_nat (resultItems r))"
  by code_simp

end
